theory Spec2Isabelle
  imports Main "HOL-Library.Word" "HOL-Library.AList"
begin

unbundle bit_operations_syntax

section \<open>Package tsdb: entities, paths and the series directory\<close>

subsection \<open>Bytes, entries and hashing\<close>

type_synonym byte = "8 word"
type_synonym bytes = "byte list"

text \<open>
  \<^verbatim>\<open>type Entry []byte\<close>. A Go slice is either nil or a (possibly empty) byte string, and
  \<^verbatim>\<open>NewPath\<close> tells the two apart (\<^verbatim>\<open>e == nil\<close>): \<open>None\<close> is the nil slice
  \<^verbatim>\<open>AnyEntry = Entry(nil)\<close>, \<open>Some bs\<close> a concrete entry.
\<close>

type_synonym Entry = "bytes option"
type_synonym Entity = "Entry list"

definition AnyEntry :: Entry where
  "AnyEntry = None"

text \<open>The bytes a slice holds when it is read: the nil slice reads as the empty one.\<close>

definition entryBytes :: "Entry \<Rightarrow> bytes" where
  "entryBytes e = (case e of None \<Rightarrow> [] | Some bs \<Rightarrow> bs)"

text \<open>
  Modelled from the spec: \<^verbatim>\<open>convert.Uint64ToBytes\<close> is not among the sources. The spec
  gives every entry 8 bytes of template and mask (a 64-bit hash, all-ones, or zeros); the
  64-bit value is laid out most significant byte first.
\<close>

definition Uint64ToBytes :: "64 word \<Rightarrow> bytes" where
  "Uint64ToBytes v = map (\<lambda>i. ucast (drop_bit (8 * i) v)) [7, 6, 5, 4, 3, 2, 1, 0::nat]"

text \<open>\<^verbatim>\<open>math.MaxUint64\<close> is \<open>2^64 - 1\<close>.\<close>

definition maxIntBytes :: bytes where
  "maxIntBytes = Uint64ToBytes 18446744073709551615"

definition zeroIntBytes :: bytes where
  "zeroIntBytes = Uint64ToBytes 0"

text \<open>
  \<^verbatim>\<open>func hash(entry []byte) []byte { return convert.Uint64ToBytes(convert.Hash(entry)) }\<close>.
  \<^verbatim>\<open>convert.Hash\<close> is not among the sources: the 64-bit hash function is the parameter
  \<open>Hash\<close> of everything that hashes.
\<close>

type_synonym hashfn = "bytes \<Rightarrow> 64 word"

definition hash :: "hashfn \<Rightarrow> bytes \<Rightarrow> bytes" where
  "hash Hash entry = Uint64ToBytes (Hash entry)"

subsection \<open>Path construction\<close>

record Path =
  prefix :: bytes
  mask_p :: bytes
  template :: bytes
  isFull :: bool

text \<open>
  The loop of \<^verbatim>\<open>NewPath\<close> over the entries; the state is
  \<open>(p.mask, p.template, offset, encounterAny)\<close>.
\<close>

fun NewPath_loop :: "hashfn \<Rightarrow> Entry list \<Rightarrow> bytes \<times> bytes \<times> nat \<times> bool
    \<Rightarrow> bytes \<times> bytes \<times> nat \<times> bool" where
  "NewPath_loop Hash [] st = st"
| "NewPath_loop Hash (e # es) (m, t, offset, encounterAny) =
     (case e of
        None \<Rightarrow> NewPath_loop Hash es (m @ zeroIntBytes, t @ zeroIntBytes, offset, True)
      | Some bs \<Rightarrow>
          NewPath_loop Hash es
            (m @ maxIntBytes, t @ hash Hash bs,
             (if \<not> encounterAny then offset + 8 else offset), encounterAny))"

text \<open>
  \<^verbatim>\<open>p.prefix = p.template[:offset]\<close>: the slice expression panics when \<open>offset\<close> exceeds
  the length, which the loop never produces (\<open>NewPath_loop_offset\<close> below), so \<open>take\<close>
  is the slice.
\<close>

definition NewPath :: "hashfn \<Rightarrow> Entry list \<Rightarrow> Path" where
  "NewPath Hash entries =
     (case NewPath_loop Hash entries ([], [], 0, False) of
        (m, t, offset, encounterAny) \<Rightarrow>
          \<lparr>prefix = take offset t, mask_p = m, template = t, isFull = \<not> encounterAny\<rparr>)"

subsection \<open>Outcomes of calls that can panic\<close>

text \<open>
  A Go call either returns its results or panics (an index out of range, a failed type
  assertion). A panic is not an error value: it unwinds the caller.
\<close>

datatype 'a outcome = Returns 'a | Panics

subsection \<open>The series-metadata store\<close>

text \<open>
  Modelled from the spec: the \<^verbatim>\<open>kv.Store\<close> interface is not among the sources; the spec
  names it as the series-metadata KV with a point get, a put and a prefix scan, whose
  "not found" is told apart from other KV errors. The store is its key/value pairs in
  scan order (keys distinct), together with the errors its operations return: \<open>getErr k\<close>
  for \<^verbatim>\<open>Get(k)\<close>, \<open>putErr k v\<close> for \<^verbatim>\<open>Put(k, v)\<close>, \<open>scanErr p\<close> for \<^verbatim>\<open>Scan(p, ...)\<close> and
  \<open>getValErr k\<close> for the \<^verbatim>\<open>getVal\<close> callback a scan hands out for key \<open>k\<close>
  (\<open>None\<close> is a nil error).
\<close>

datatype kverror = ErrKeyNotFound | KVError string

record Store =
  entries :: "(bytes \<times> bytes) list"
  getErr :: "bytes \<Rightarrow> kverror option"
  putErr :: "bytes \<Rightarrow> bytes \<Rightarrow> kverror option"
  scanErr :: "bytes \<Rightarrow> kverror option"
  getValErr :: "bytes \<Rightarrow> kverror option"

definition kvGet :: "Store \<Rightarrow> bytes \<Rightarrow> kverror + bytes" where
  "kvGet st key =
     (case getErr st key of
        Some err \<Rightarrow> Inl err
      | None \<Rightarrow> (case map_of (entries st) key of None \<Rightarrow> Inl ErrKeyNotFound | Some v \<Rightarrow> Inr v))"

definition kvPut :: "Store \<Rightarrow> bytes \<Rightarrow> bytes \<Rightarrow> kverror + Store" where
  "kvPut st key val =
     (case putErr st key val of
        Some err \<Rightarrow> Inl err
      | None \<Rightarrow> Inr (st\<lparr>entries := AList.update key val (entries st)\<rparr>))"

text \<open>The pairs a scan with prefix \<open>p\<close> visits, in scan order.\<close>

definition kvScan :: "Store \<Rightarrow> bytes \<Rightarrow> (bytes \<times> bytes) list" where
  "kvScan st p = filter (\<lambda>(key, val). take (length p) key = p) (entries st)"

definition getVal :: "Store \<Rightarrow> bytes \<Rightarrow> bytes \<Rightarrow> kverror + bytes" where
  "getVal st key val = (case getValErr st key of Some err \<Rightarrow> Inl err | None \<Rightarrow> Inr val)"

subsection \<open>The series database\<close>

type_synonym SeriesID = "64 word"
type_synonym ShardID = "32 word"

text \<open>An instant, in nanoseconds since the Unix epoch; Go's \<^verbatim>\<open>time.Time\<close>.\<close>

type_synonym Time = int

record TimeRange =
  Start :: Time
  End :: Time

text \<open>
  \<^verbatim>\<open>segment\<close>, \<^verbatim>\<open>block\<close> and \<^verbatim>\<open>block.delegate()\<close> are not among the sources: a block is
  named by a number, a segment is the list \<^verbatim>\<open>lst\<close> of its blocks, and the delegate of a
  block is a handle on that block.
\<close>

type_synonym block = nat

datatype blockDelegate = delegate block

datatype segment = segment (lst: "block list")

record seriesDB =
  lst :: "segment list"
  seriesMetadata :: Store
  sID :: ShardID

text \<open>
  \<^verbatim>\<open>newSeries(ctx, id, s)\<close> is not among the sources: a series is the pair of its id and
  the shard of the database it was made for.
\<close>

datatype Series = newSeries (ID: SeriesID) (shard: ShardID)

text \<open>
  \<^verbatim>\<open>bytesConvSeriesID(data) = common.SeriesID(convert.BytesToUint64(data))\<close>;
  \<^verbatim>\<open>convert.BytesToUint64\<close> is not among the sources and is the parameter \<open>BytesToUint64\<close>.
\<close>

type_synonym decodefn = "bytes \<Rightarrow> 64 word"

definition bytesConvSeriesID :: "decodefn \<Rightarrow> bytes \<Rightarrow> SeriesID" where
  "bytesConvSeriesID BytesToUint64 data = BytesToUint64 data"

text \<open>\<^verbatim>\<open>HashEntity\<close>: the loop appends \<open>hash(entry)\<close> for every entry, nil or not.\<close>

definition HashEntity :: "hashfn \<Rightarrow> Entity \<Rightarrow> bytes" where
  "HashEntity Hash entity =
     foldl (\<lambda>result entry. result @ hash Hash (entryBytes entry)) [] entity"

text \<open>
  \<^verbatim>\<open>GetByHashKey\<close> returns the series or the error, and the database with its metadata
  store as the call leaves it. The lock around the insertion orders concurrent calls and
  has no effect on one call.
\<close>

definition seriesDB_GetByHashKey ::
    "hashfn \<Rightarrow> decodefn \<Rightarrow> seriesDB \<Rightarrow> bytes \<Rightarrow> (kverror + Series) \<times> seriesDB" where
  "seriesDB_GetByHashKey Hash BytesToUint64 s key =
     (case kvGet (seriesMetadata s) key of
        Inr seriesID \<Rightarrow> (Inr (newSeries (bytesConvSeriesID BytesToUint64 seriesID) (sID s)), s)
      | Inl err \<Rightarrow>
          if err \<noteq> ErrKeyNotFound then (Inl err, s)
          else
            (let seriesID = hash Hash key in
             case kvPut (seriesMetadata s) key seriesID of
               Inl err' \<Rightarrow> (Inl err', s)
             | Inr md \<Rightarrow>
                 (Inr (newSeries (bytesConvSeriesID BytesToUint64 seriesID) (sID s)),
                  s\<lparr>seriesMetadata := md\<rparr>)))"

definition seriesDB_Get ::
    "hashfn \<Rightarrow> decodefn \<Rightarrow> seriesDB \<Rightarrow> Entity \<Rightarrow> (kverror + Series) \<times> seriesDB" where
  "seriesDB_Get Hash BytesToUint64 s entity =
     (let key = HashEntity Hash entity in seriesDB_GetByHashKey Hash BytesToUint64 s key)"

text \<open>
  The callback \<^verbatim>\<open>List\<close> hands to \<^verbatim>\<open>Scan\<close>, run over the visited pairs. The state is
  \<open>(result, err)\<close>; \<open>err\<close> is the \<^verbatim>\<open>multierr\<close> accumulator, the list of the errors appended
  (nil when empty). \<^verbatim>\<open>comparableKey[i] = path.mask[i] & b\<close> for every index of the key
  reads the mask out of range, and panics, when the key is longer than the mask.
\<close>

fun List_scan :: "decodefn \<Rightarrow> seriesDB \<Rightarrow> Path \<Rightarrow> (bytes \<times> bytes) list
    \<Rightarrow> Series list \<times> kverror list \<Rightarrow> (Series list \<times> kverror list) outcome" where
  "List_scan BytesToUint64 s path [] acc = Returns acc"
| "List_scan BytesToUint64 s path ((key, val) # kvs) (result, err) =
     (if length (mask_p path) < length key then Panics
      else
        (let comparableKey = map2 (\<lambda>m b. m AND b) (mask_p path) key in
         if template path = comparableKey then
           (case getVal (seriesMetadata s) key val of
              Inl errGetVal \<Rightarrow> List_scan BytesToUint64 s path kvs (result, err @ [errGetVal])
            | Inr idv \<Rightarrow>
                List_scan BytesToUint64 s path kvs
                  (result @ [newSeries (bytesConvSeriesID BytesToUint64 idv) (sID s)], err))
         else List_scan BytesToUint64 s path kvs (result, err)))"

text \<open>
  \<^verbatim>\<open>List\<close> returns \<open>(SeriesList, error)\<close>; a nil list is the empty list and a nil error
  the empty error list. A scan that fails returns its error before any pair is visited.
\<close>

definition seriesDB_List ::
    "decodefn \<Rightarrow> seriesDB \<Rightarrow> Path \<Rightarrow> (Series list \<times> kverror list) outcome" where
  "seriesDB_List BytesToUint64 s path =
     (if isFull path then
        (case kvGet (seriesMetadata s) (prefix path) of
           Inr idv \<Rightarrow> Returns ([newSeries (bytesConvSeriesID BytesToUint64 idv) (sID s)], [])
         | Inl err \<Rightarrow> if err \<noteq> ErrKeyNotFound then Returns ([], [err]) else Returns ([], []))
      else
        (case scanErr (seriesMetadata s) (prefix path) of
           Some errScan \<Rightarrow> Returns ([], [errScan])
         | None \<Rightarrow>
             List_scan BytesToUint64 s path (kvScan (seriesMetadata s) (prefix path)) ([], [])))"

text \<open>
  \<^verbatim>\<open>span\<close> ignores its time range and reads \<^verbatim>\<open>s.lst[0].lst\<close>: the blocks of the first
  segment. Indexing an empty segment list panics.
\<close>

definition seriesDB_span :: "seriesDB \<Rightarrow> TimeRange \<Rightarrow> blockDelegate list outcome" where
  "seriesDB_span s timeRange =
     (case seriesDB.lst s of
        [] \<Rightarrow> Panics
      | seg # rest \<Rightarrow> Returns (map delegate (segment.lst seg)))"

section \<open>Package logical: the index-scan plans\<close>

subsection \<open>Index rules, tags and expressions\<close>

text \<open>
  The generated code of \<^verbatim>\<open>databasev1\<close> is not among the sources. An index rule carries a
  location (the enum has the proto3 zero value besides the two the spec names); the plans
  hold rules as pointers \<^verbatim>\<open>*databasev1.IndexRule\<close> and key a map by them, so a rule is an
  address and the store \<open>h\<close> gives the rule an address holds (nil holds none). Getters of
  generated messages answer the zero value on a nil receiver, as those of
  \<^verbatim>\<open>query.pb.go\<close> do.
\<close>

datatype Location = LOCATION_UNSPECIFIED | LOCATION_SERIES | LOCATION_GLOBAL

record IndexRule =
  ruleName :: string
  location :: Location

type_synonym IndexRule_ptr = nat
type_synonym heap = "IndexRule_ptr \<Rightarrow> IndexRule option"

definition GetLocation :: "heap \<Rightarrow> IndexRule_ptr \<Rightarrow> Location" where
  "GetLocation h x = (case h x of None \<Rightarrow> LOCATION_UNSPECIFIED | Some r \<Rightarrow> location r)"

text \<open>
  \<^verbatim>\<open>Tag\<close> is not among the sources; the plans read a tag through \<^verbatim>\<open>GetCompoundName()\<close>
  and \<^verbatim>\<open>GetTagName()\<close> only, so a tag is what these two return.
\<close>

record Tag =
  GetCompoundName :: string
  GetTagName :: string

text \<open>
  \<^verbatim>\<open>FieldRef\<close> holds the tag and, once resolved, its place in the schema
  (family index, tag index).
\<close>

record FieldRef =
  tag :: Tag
  spec :: "(nat \<times> nat) option"

text \<open>The operators of a binary predicate, as the spec lists them.\<close>

datatype BinaryOp = EQ | NE | LT | LE | GT | GE | IN

text \<open>
  \<^verbatim>\<open>Expr\<close> is an interface; its implementations the plans tell apart are \<^verbatim>\<open>*FieldRef\<close>,
  literals (\<^verbatim>\<open>LiteralExpr\<close>, read through \<^verbatim>\<open>Bytes()\<close>) and \<^verbatim>\<open>*binaryExpr\<close> with its
  fields \<^verbatim>\<open>op\<close>, \<^verbatim>\<open>l\<close> and \<^verbatim>\<open>r\<close>.
\<close>

datatype Expr =
    FieldRefExpr FieldRef
  | LiteralExpr bytes
  | binaryExpr (op: BinaryOp) (l: Expr) (r: Expr)

text \<open>
  Modelled from the spec: which expressions implement \<^verbatim>\<open>ResolvableExpr\<close> is not in the
  sources. The spec has conditions "advertise resolvability" and has resolution bind the
  field references of a predicate: field references and binary predicates resolve, a
  literal does not.
\<close>

fun isResolvableExpr :: "Expr \<Rightarrow> bool" where
  "isResolvableExpr (FieldRefExpr f) = True"
| "isResolvableExpr (LiteralExpr bs) = False"
| "isResolvableExpr (binaryExpr opr x y) = True"

datatype error =
    ErrIndexNotDefined
  | ErrMultipleGlobalIndexes
  | Wrap error string
  | ErrOther string

subsection \<open>Metadata, ordering and the schema\<close>

text \<open>\<^verbatim>\<open>message Metadata\<close> of \<^verbatim>\<open>common.proto\<close>; the plans hold a pointer that may be nil.\<close>

record Metadata =
  group :: string
  name :: string
  id :: "32 word"

definition GetGroup :: "Metadata option \<Rightarrow> string" where
  "GetGroup x = (case x of None \<Rightarrow> [] | Some m \<Rightarrow> group m)"

definition GetName :: "Metadata option \<Rightarrow> string" where
  "GetName x = (case x of None \<Rightarrow> [] | Some m \<Rightarrow> name m)"

datatype Sort = SORT_UNSPECIFIED | SORT_DESC | SORT_ASC

record UnresolvedOrderBy =
  sort :: Sort
  targetIndexRuleName :: string

record orderBy =
  index :: "IndexRule_ptr option"
  sort :: Sort

text \<open>
  \<^verbatim>\<open>Schema\<close> is an interface whose implementation is not among the sources, and neither
  are \<^verbatim>\<open>Resolve\<close> of the expressions and \<^verbatim>\<open>analyze\<close> of the unresolved order-by. A schema
  is what the analyzer can ask of it:
  \<^item> \<open>IndexDefined s tag\<close>: \<^verbatim>\<open>s.IndexDefined(tag)\<close>, a flag and a rule pointer;
  \<^item> \<open>CreateRef s tags\<close>: \<^verbatim>\<open>s.CreateRef(tags...)\<close>, the references or an error;
  \<^item> \<open>Resolve s e\<close>: the error of \<^verbatim>\<open>e.Resolve(s)\<close> (\<open>None\<close> is nil). Resolution binds
    \<open>spec\<close> inside the field references and leaves operator, operands and tags as they
    are; no plan reads \<open>spec\<close>, so the expression stands for itself after it;
  \<^item> \<open>analyzeOrderBy s u refs\<close>: \<^verbatim>\<open>u.analyze(s.Proj(refs...))\<close>, the order-by sub-plan
    or an error.
\<close>

record Schema =
  IndexDefined :: "Tag \<Rightarrow> bool \<times> IndexRule_ptr"
  CreateRef :: "Tag list list \<Rightarrow> error + FieldRef list list"
  Resolve :: "Expr \<Rightarrow> error option"
  analyzeOrderBy :: "UnresolvedOrderBy option \<Rightarrow> FieldRef list list \<Rightarrow> error + orderBy"

subsection \<open>Plans\<close>

record unresolvedIndexScan =
  unresolvedOrderBy :: "UnresolvedOrderBy option"
  startTime :: Time
  endTime :: Time
  metadata :: "Metadata option"
  conditions :: "Expr list"
  projectionFields :: "Tag list list"
  entity :: Entity

type_synonym conditionMap = "IndexRule_ptr \<Rightarrow> Expr list option"

record localIndexScan =
  orderBy :: orderBy
  timeRange :: TimeRange
  schema :: Schema
  metadata :: "Metadata option"
  conditionMap :: conditionMap
  projectionFieldRefs :: "FieldRef list list"
  entity :: Entity

record globalIndexScan =
  schema :: Schema
  metadata :: "Metadata option"
  globalIndexRule :: IndexRule_ptr
  expr :: Expr
  projectionFieldRefs :: "FieldRef list list"

datatype Plan = LocalIndexScan localIndexScan | GlobalIndexScan globalIndexScan

text \<open>\<^verbatim>\<open>tsdb.NewTimeRange\<close> is not among the sources: it pairs the two instants.\<close>

definition NewTimeRange :: "Time \<Rightarrow> Time \<Rightarrow> TimeRange" where
  "NewTimeRange s e = \<lparr>Start = s, End = e\<rparr>"

subsection \<open>Analyze\<close>

text \<open>
  \<^verbatim>\<open>globalConditions\<close> is a slice of \<^verbatim>\<open>interface{}\<close> to which the loop appends a rule and a
  condition in turn; \<^verbatim>\<open>Analyze\<close> reads it back with type assertions.
\<close>

datatype iface = RuleV IndexRule_ptr | ExprV Expr

text \<open>
  The body of the loop over \<^verbatim>\<open>uis.conditions\<close> for one condition; the state is
  \<open>(localConditionMap, globalConditions)\<close>. The assertion \<^verbatim>\<open>bCond.l.(*FieldRef)\<close> panics
  when the left operand is no field reference.
\<close>

fun analyzeCond :: "heap \<Rightarrow> Schema \<Rightarrow> Expr \<Rightarrow> conditionMap \<times> iface list
    \<Rightarrow> (error + conditionMap \<times> iface list) outcome" where
  "analyzeCond h s cond (localConditionMap, globalConditions) =
     (if isResolvableExpr cond then
        (case Resolve s cond of
           Some err \<Rightarrow> Returns (Inl err)
         | None \<Rightarrow>
             (case cond of
                binaryExpr opr lhs rhs \<Rightarrow>
                  (case lhs of
                     FieldRefExpr f \<Rightarrow>
                       (case IndexDefined s (tag f) of
                          (defined, indexObj) \<Rightarrow>
                            if defined then
                              (if GetLocation h indexObj = LOCATION_SERIES then
                                 (case localConditionMap indexObj of
                                    Some v \<Rightarrow>
                                      Returns (Inr (localConditionMap(indexObj \<mapsto> v @ [cond]),
                                        globalConditions))
                                  | None \<Rightarrow>
                                      Returns (Inr (localConditionMap(indexObj \<mapsto> [cond]),
                                        globalConditions)))
                               else if GetLocation h indexObj = LOCATION_GLOBAL then
                                 Returns (Inr (localConditionMap,
                                   globalConditions @ [RuleV indexObj, ExprV cond]))
                               else Returns (Inr (localConditionMap, globalConditions)))
                            else Returns (Inl (Wrap ErrIndexNotDefined (GetCompoundName (tag f)))))
                   | _ \<Rightarrow> Panics)
              | _ \<Rightarrow> Returns (Inr (localConditionMap, globalConditions))))
      else Returns (Inr (localConditionMap, globalConditions)))"

fun analyzeConds :: "heap \<Rightarrow> Schema \<Rightarrow> Expr list \<Rightarrow> conditionMap \<times> iface list
    \<Rightarrow> (error + conditionMap \<times> iface list) outcome" where
  "analyzeConds h s [] st = Returns (Inr st)"
| "analyzeConds h s (cond # conds) st =
     (case analyzeCond h s cond st of
        Panics \<Rightarrow> Panics
      | Returns (Inl err) \<Rightarrow> Returns (Inl err)
      | Returns (Inr st') \<Rightarrow> analyzeConds h s conds st')"

text \<open>
  \<^verbatim>\<open>Analyze\<close>. Reading \<^verbatim>\<open>globalConditions[0]\<close> and \<^verbatim>\<open>[1]\<close> out of range, or with a failing
  type assertion, panics.
\<close>

definition Analyze :: "heap \<Rightarrow> unresolvedIndexScan \<Rightarrow> Schema \<Rightarrow> (error + Plan) outcome" where
  "Analyze h uis s =
     (case analyzeConds h s (conditions uis) (Map.empty, []) of
        Panics \<Rightarrow> Panics
      | Returns (Inl err) \<Rightarrow> Returns (Inl err)
      | Returns (Inr (localConditionMap, globalConditions)) \<Rightarrow>
          (case (if projectionFields uis \<noteq> [] then CreateRef s (projectionFields uis)
                 else Inr []) of
             Inl err \<Rightarrow> Returns (Inl err)
           | Inr projFieldsRefs \<Rightarrow>
               if length globalConditions > 0 then
                 (if length globalConditions div 2 > 1 then Returns (Inl ErrMultipleGlobalIndexes)
                  else
                    (case globalConditions of
                       RuleV rule # ExprV e # rest \<Rightarrow>
                         Returns (Inr (GlobalIndexScan
                           \<lparr>globalIndexScan.schema = s,
                            globalIndexScan.metadata = unresolvedIndexScan.metadata uis,
                            globalIndexRule = rule,
                            expr = e,
                            globalIndexScan.projectionFieldRefs = projFieldsRefs\<rparr>))
                     | _ \<Rightarrow> Panics))
               else
                 (case analyzeOrderBy s (unresolvedOrderBy uis) projFieldsRefs of
                    Inl err \<Rightarrow> Returns (Inl err)
                  | Inr orderBySubPlan \<Rightarrow>
                      Returns (Inr (LocalIndexScan
                        \<lparr>orderBy = orderBySubPlan,
                         timeRange = NewTimeRange (startTime uis) (endTime uis),
                         localIndexScan.schema = s,
                         localIndexScan.metadata = unresolvedIndexScan.metadata uis,
                         conditionMap = localConditionMap,
                         localIndexScan.projectionFieldRefs = projFieldsRefs,
                         localIndexScan.entity = unresolvedIndexScan.entity uis\<rparr>)))))"

subsection \<open>Equal and String of the local index scan\<close>

text \<open>\<^verbatim>\<open>Entity.Marshal\<close>: \<^verbatim>\<open>bytes.Join(data, nil)\<close>, the entries one after another.\<close>

definition Marshal :: "Entity \<Rightarrow> bytes" where
  "Marshal e = concat (map entryBytes e)"

text \<open>
  \<^verbatim>\<open>Time.Unix()\<close> is the whole seconds since the epoch, rounded down. \<^verbatim>\<open>Time.UnixNano()\<close>
  is an \<^verbatim>\<open>int64\<close>: the nanoseconds since the epoch, wrapped to 64 bits for an instant
  outside the range an \<^verbatim>\<open>int64\<close> of nanoseconds holds.
\<close>

definition Unix :: "Time \<Rightarrow> int" where
  "Unix t = t div 1000000000"

definition UnixNano :: "Time \<Rightarrow> 64 word" where
  "UnixNano t = word_of_int t"

text \<open>\<^verbatim>\<open>strings.Join(elems, sep)\<close>.\<close>

fun Join :: "string list \<Rightarrow> string \<Rightarrow> string" where
  "Join [] sep = []"
| "Join [x] sep = x"
| "Join (x # y # ys) sep = x @ sep @ Join (y # ys) sep"

text \<open>The verb \<^verbatim>\<open>%d\<close> of \<^verbatim>\<open>fmt.Sprintf\<close>: decimal digits, with a minus sign when negative.\<close>

fun formatNat :: "nat \<Rightarrow> string" where
  "formatNat n =
     (if n < 10 then [''0123456789'' ! n]
      else formatNat (n div 10) @ [''0123456789'' ! (n mod 10)])"

definition formatInt :: "int \<Rightarrow> string" where
  "formatInt i = (if i < 0 then CHR ''-'' # formatNat (nat (- i)) else formatNat (nat i))"

text \<open>
  \<^verbatim>\<open>Equal\<close>. Modelled from the spec: \<^verbatim>\<open>cmp.Equal\<close> is a library call whose code and options
  are not among the sources; the spec reads it as deep equality of the analyzed fields,
  here equality of the values (a rule pointer standing for its rule).
\<close>

definition localIndexScan_Equal :: "localIndexScan \<Rightarrow> Plan \<Rightarrow> bool" where
  "localIndexScan_Equal i plan =
     (case plan of
        GlobalIndexScan g \<Rightarrow> False
      | LocalIndexScan other \<Rightarrow>
          GetGroup (localIndexScan.metadata i) = GetGroup (localIndexScan.metadata other) \<and>
          GetName (localIndexScan.metadata i) = GetName (localIndexScan.metadata other) \<and>
          UnixNano (Start (timeRange i)) = UnixNano (Start (timeRange other)) \<and>
          UnixNano (End (timeRange i)) = UnixNano (End (timeRange other)) \<and>
          Marshal (localIndexScan.entity i) = Marshal (localIndexScan.entity other) \<and>
          localIndexScan.projectionFieldRefs i = localIndexScan.projectionFieldRefs other \<and>
          localIndexScan.schema i = localIndexScan.schema other \<and>
          conditionMap i = conditionMap other \<and>
          orderBy i = orderBy other)"

text \<open>
  \<^verbatim>\<open>for _, conditions := range i.conditionMap\<close> visits every key of the map once, in an
  order Go leaves unspecified and that may differ from one loop over the same map to the
  next. \<open>rangeOrder m ks\<close>: the list \<open>ks\<close> is such an order for the map \<open>m\<close>.
\<close>

definition rangeOrder :: "conditionMap \<Rightarrow> IndexRule_ptr list \<Rightarrow> bool" where
  "rangeOrder m ks = (distinct ks \<and> set ks = dom m)"

text \<open>
  \<^verbatim>\<open>String\<close>, for the order \<open>ks\<close> in which its \<^verbatim>\<open>range\<close> loop visits the condition map.
  \<^verbatim>\<open>Expr.String()\<close> and \<^verbatim>\<open>formatExpr\<close> are not among the sources and are the parameters
  \<open>exprString\<close> and \<open>formatExpr\<close>.
\<close>

definition localIndexScan_String :: "(Expr \<Rightarrow> string) \<Rightarrow> (string \<Rightarrow> FieldRef list list \<Rightarrow> string)
    \<Rightarrow> IndexRule_ptr list \<Rightarrow> localIndexScan \<Rightarrow> string" where
  "localIndexScan_String exprString formatExpr ks i =
     (let exprStr =
        map (\<lambda>k. let conditionStr =
                    map exprString (case conditionMap i k of None \<Rightarrow> [] | Some cs \<Rightarrow> cs)
                  in ''('' @ Join conditionStr '' AND '' @ '')'') ks
      in
        if length (localIndexScan.projectionFieldRefs i) = 0 then
          ''IndexScan: startTime='' @ formatInt (Unix (Start (timeRange i))) @
          '',endTime='' @ formatInt (Unix (End (timeRange i))) @
          '',Metadata{group='' @ GetGroup (localIndexScan.metadata i) @
          '',name='' @ GetName (localIndexScan.metadata i) @
          ''},conditions='' @ Join exprStr '' AND '' @ ''; projection=None''
        else
          ''IndexScan: startTime='' @ formatInt (Unix (Start (timeRange i))) @
          '',endTime='' @ formatInt (Unix (End (timeRange i))) @
          '',Metadata{group='' @ GetGroup (localIndexScan.metadata i) @
          '',name='' @ GetName (localIndexScan.metadata i) @
          ''},conditions='' @ Join exprStr '' AND '' @
          ''; projection='' @ formatExpr '', '' (localIndexScan.projectionFieldRefs i))"

subsection \<open>Vocabulary for the properties of Analyze\<close>

text \<open>
  \<open>ruleOf s c\<close>: the rule \<^verbatim>\<open>s.IndexDefined\<close> reports for the tag of \<open>c\<close>, when \<open>c\<close> is a
  binary predicate on a field reference whose tag is defined; this is the test the loop
  of \<^verbatim>\<open>Analyze\<close> makes. \<open>targets h s loc c\<close>: that rule is located at \<open>loc\<close>.
\<close>

fun ruleOf :: "Schema \<Rightarrow> Expr \<Rightarrow> IndexRule_ptr option" where
  "ruleOf s (binaryExpr opr (FieldRefExpr f) rhs) =
     (case IndexDefined s (tag f) of (defined, indexObj) \<Rightarrow>
        if defined then Some indexObj else None)"
| "ruleOf s c = None"

definition targets :: "heap \<Rightarrow> Schema \<Rightarrow> Location \<Rightarrow> Expr \<Rightarrow> bool" where
  "targets h s loc c =
     (case ruleOf s c of None \<Rightarrow> False | Some x \<Rightarrow> GetLocation h x = loc)"

text \<open>
  \<open>condPasses h s c\<close>: the loop body of \<^verbatim>\<open>Analyze\<close> gets past the condition \<open>c\<close>, with
  neither an error nor a panic (whether it does is the same from every state of the loop,
  \<open>analyzeCond_passes\<close> below).
\<close>

definition condPasses :: "heap \<Rightarrow> Schema \<Rightarrow> Expr \<Rightarrow> bool" where
  "condPasses h s c =
     (case analyzeCond h s c (Map.empty, []) of
        Returns (Inr st) \<Rightarrow> True
      | _ \<Rightarrow> False)"

text \<open>
  \<open>condPanics h s c\<close>: the loop body of \<^verbatim>\<open>Analyze\<close> panics at the condition \<open>c\<close>, on the
  type assertion \<^verbatim>\<open>bCond.l.(*FieldRef)\<close> (from every state of the loop alike,
  \<open>analyzeCond_panics\<close> below).
\<close>

definition condPanics :: "heap \<Rightarrow> Schema \<Rightarrow> Expr \<Rightarrow> bool" where
  "condPanics h s c = (analyzeCond h s c (Map.empty, []) = Panics)"

subsection \<open>The calls Analyze makes\<close>

text \<open>
  The calls the plans make on their collaborators. \<^verbatim>\<open>Analyze\<close> has the unresolved plan as
  its receiver and the schema as its one argument; in its body (l.50-118) it calls
  \<^verbatim>\<open>Resolve(s)\<close> on the resolvable conditions and \<^verbatim>\<open>IndexDefined\<close>, \<^verbatim>\<open>CreateRef\<close> and
  \<^verbatim>\<open>Proj\<close> on the schema, and \<^verbatim>\<open>analyze\<close> on the unresolved order-by. The calls on the
  \<^verbatim>\<open>executor.ExecutionContext\<close> (\<^verbatim>\<open>ec.Shards\<close>, \<^verbatim>\<open>ec.ParseElementID\<close>) and on the storage
  (\<^verbatim>\<open>shard.Series().List\<close>) stand in \<^verbatim>\<open>Execute\<close> and \<^verbatim>\<open>executeInShard\<close> of the analyzed
  plan (l.132-196).
\<close>

datatype call =
    Call_Resolve Expr
  | Call_IndexDefined Tag
  | Call_CreateRef "Tag list list"
  | Call_Proj "FieldRef list list"
  | Call_analyze "UnresolvedOrderBy option"
  | Call_Shards Entity
  | Call_SeriesList Entity
  | Call_ParseElementID

fun onExecutionContextOrStorage :: "call \<Rightarrow> bool" where
  "onExecutionContextOrStorage (Call_Shards e) = True"
| "onExecutionContextOrStorage (Call_SeriesList e) = True"
| "onExecutionContextOrStorage Call_ParseElementID = True"
| "onExecutionContextOrStorage c = False"

text \<open>
  The calls of the loop body for one condition, in order: \<^verbatim>\<open>Resolve\<close> on a resolvable
  condition and, when that returns no error and the condition is a binary predicate on a
  field reference, \<^verbatim>\<open>s.IndexDefined(tag)\<close>.
\<close>

definition analyzeCond_calls :: "Schema \<Rightarrow> Expr \<Rightarrow> call list" where
  "analyzeCond_calls s cond =
     (if isResolvableExpr cond then
        Call_Resolve cond #
        (case Resolve s cond of
           Some err \<Rightarrow> []
         | None \<Rightarrow>
             (case cond of
                binaryExpr opr lhs rhs \<Rightarrow>
                  (case lhs of
                     FieldRefExpr f \<Rightarrow> [Call_IndexDefined (tag f)]
                   | _ \<Rightarrow> [])
              | _ \<Rightarrow> []))
      else [])"

text \<open>The calls of the loop, which ends at the first condition that fails or panics.\<close>

fun analyzeConds_calls :: "heap \<Rightarrow> Schema \<Rightarrow> Expr list \<Rightarrow> conditionMap \<times> iface list
    \<Rightarrow> call list" where
  "analyzeConds_calls h s [] st = []"
| "analyzeConds_calls h s (cond # conds) st =
     analyzeCond_calls s cond @
     (case analyzeCond h s cond st of
        Returns (Inr st') \<Rightarrow> analyzeConds_calls h s conds st'
      | _ \<Rightarrow> [])"

text \<open>
  The calls of \<^verbatim>\<open>Analyze\<close>: those of the loop, then \<^verbatim>\<open>s.CreateRef\<close> for a non-empty
  projection, then, on the way to the local plan, \<^verbatim>\<open>s.Proj\<close> and \<^verbatim>\<open>analyze\<close> of the
  order-by.
\<close>

definition Analyze_calls :: "heap \<Rightarrow> unresolvedIndexScan \<Rightarrow> Schema \<Rightarrow> call list" where
  "Analyze_calls h uis s =
     analyzeConds_calls h s (conditions uis) (Map.empty, []) @
     (case analyzeConds h s (conditions uis) (Map.empty, []) of
        Returns (Inr (localConditionMap, globalConditions)) \<Rightarrow>
          (if projectionFields uis \<noteq> [] then [Call_CreateRef (projectionFields uis)] else []) @
          (case (if projectionFields uis \<noteq> [] then CreateRef s (projectionFields uis)
                 else Inr []) of
             Inl err \<Rightarrow> []
           | Inr projFieldsRefs \<Rightarrow>
               if length globalConditions > 0 then []
               else [Call_Proj projFieldsRefs, Call_analyze (unresolvedOrderBy uis)])
      | _ \<Rightarrow> [])"

subsection \<open>Concrete inputs\<close>

text \<open>
  A store of five rules (two GLOBAL, two SERIES, one with no location), a schema that
  indexes six tags, resolves every expression and every projection, and plans over it.
  The tags \<open>a\<close> and \<open>b\<close> share the rule at address 3.
\<close>

definition example_heap :: heap where
  "example_heap x =
     (if x = 1 then Some \<lparr>ruleName = ''trace_id'', location = LOCATION_GLOBAL\<rparr>
      else if x = 2 then Some \<lparr>ruleName = ''span_id'', location = LOCATION_GLOBAL\<rparr>
      else if x = 3 then Some \<lparr>ruleName = ''http'', location = LOCATION_SERIES\<rparr>
      else if x = 4 then Some \<lparr>ruleName = ''duration'', location = LOCATION_SERIES\<rparr>
      else if x = 5 then Some \<lparr>ruleName = ''legacy'', location = LOCATION_UNSPECIFIED\<rparr>
      else None)"

definition example_tag :: "string \<Rightarrow> Tag" where
  "example_tag n = \<lparr>GetCompoundName = n, GetTagName = n\<rparr>"

definition example_schema :: Schema where
  "example_schema =
     \<lparr>IndexDefined = (\<lambda>t.
        if GetTagName t = ''trace_id'' then (True, 1)
        else if GetTagName t = ''span_id'' then (True, 2)
        else if GetTagName t = ''a'' then (True, 3)
        else if GetTagName t = ''b'' then (True, 3)
        else if GetTagName t = ''duration'' then (True, 4)
        else if GetTagName t = ''legacy'' then (True, 5)
        else (False, 0)),
      CreateRef = (\<lambda>tags. Inr (map (map (\<lambda>t. \<lparr>tag = t, spec = Some (0, 0)\<rparr>)) tags)),
      Resolve = (\<lambda>e. None),
      analyzeOrderBy = (\<lambda>u refs. Inr \<lparr>index = None,
        sort = (case u of None \<Rightarrow> SORT_UNSPECIFIED | Some x \<Rightarrow> UnresolvedOrderBy.sort x)\<rparr>)\<rparr>"

definition example_pred :: "string \<Rightarrow> bytes \<Rightarrow> Expr" where
  "example_pred n v = binaryExpr EQ (FieldRefExpr \<lparr>tag = example_tag n, spec = None\<rparr>) (LiteralExpr v)"

definition example_uis :: "Expr list \<Rightarrow> unresolvedIndexScan" where
  "example_uis conds =
     \<lparr>unresolvedOrderBy = None, startTime = 100, endTime = 200,
      unresolvedIndexScan.metadata = Some \<lparr>group = ''default'', name = ''sw'', id = 0\<rparr>,
      conditions = conds, projectionFields = [],
      unresolvedIndexScan.entity = [Some [1], None]\<rparr>"

definition example_Hash :: hashfn where
  "example_Hash bs = word_of_nat (length bs)"

definition example_BytesToUint64 :: decodefn where
  "example_BytesToUint64 bs = foldl (\<lambda>acc b. push_bit 8 acc OR ucast b) 0 bs"

definition example_store :: "(bytes \<times> bytes) list \<Rightarrow> Store" where
  "example_store kvs =
     \<lparr>entries = kvs, getErr = (\<lambda>k. None), putErr = (\<lambda>k v. None), scanErr = (\<lambda>p. None),
      getValErr = (\<lambda>k. None)\<rparr>"

definition example_db :: "Store \<Rightarrow> seriesDB" where
  "example_db md = \<lparr>seriesDB.lst = [segment [1, 2], segment [3]], seriesMetadata = md, sID = 0\<rparr>"

definition example_unreadable :: "(bytes \<times> bytes) list \<Rightarrow> bytes \<Rightarrow> Store" where
  "example_unreadable kvs bad =
     (example_store kvs)\<lparr>getValErr := (\<lambda>k. if k = bad then Some (KVError ''read'') else None)\<rparr>"

definition example_exprString :: "Expr \<Rightarrow> string" where
  "example_exprString e =
     (case e of binaryExpr opr (FieldRefExpr f) rhs \<Rightarrow> GetTagName (tag f) | _ \<Rightarrow> ''?'')"

definition example_formatExpr :: "string \<Rightarrow> FieldRef list list \<Rightarrow> string" where
  "example_formatExpr sep refs = Join (map (\<lambda>fs. Join (map (\<lambda>f. GetTagName (tag f)) fs) sep) refs) sep"

definition example_plan :: localIndexScan where
  "example_plan =
     \<lparr>orderBy = \<lparr>index = None, sort = SORT_UNSPECIFIED\<rparr>,
      timeRange = \<lparr>Start = 100, End = 200\<rparr>,
      localIndexScan.schema = example_schema,
      localIndexScan.metadata = Some \<lparr>group = ''default'', name = ''sw'', id = 0\<rparr>,
      conditionMap = [3 \<mapsto> [example_pred ''a'' [1]], 4 \<mapsto> [example_pred ''duration'' [2]]],
      localIndexScan.projectionFieldRefs = [],
      localIndexScan.entity = [Some [1], None]\<rparr>"

lemmas example_defs = example_heap_def example_tag_def example_schema_def example_pred_def
  example_uis_def GetLocation_def

section \<open>Properties of path construction\<close>

lemma length_Uint64ToBytes: "length (Uint64ToBytes v) = 8"
  by (simp add: Uint64ToBytes_def)

lemma length_hash: "length (hash Hash bs) = 8"
  by (simp add: hash_def length_Uint64ToBytes)

lemma maxIntBytes_eq: "maxIntBytes = replicate 8 255"
proof -
  have "maxIntBytes = [255, 255, 255, 255, 255, 255, 255, 255]"
    by (simp add: maxIntBytes_def Uint64ToBytes_def)
  also have "\<dots> = replicate 8 255"
    by (simp add: numeral_eq_Suc)
  finally show ?thesis .
qed

lemma zeroIntBytes_eq: "zeroIntBytes = replicate 8 0"
proof -
  have "zeroIntBytes = [0, 0, 0, 0, 0, 0, 0, 0]"
    by (simp add: zeroIntBytes_def Uint64ToBytes_def)
  also have "\<dots> = replicate 8 0"
    by (simp add: numeral_eq_Suc)
  finally show ?thesis .
qed

text \<open>What the loop appends, from any starting state.\<close>

lemma NewPath_loop_mask:
  "fst (NewPath_loop Hash es (m, t, off, any)) =
     m @ concat (map (\<lambda>e. case e of None \<Rightarrow> zeroIntBytes | Some bs \<Rightarrow> maxIntBytes) es)"
  by (induction es arbitrary: m t off any) (auto split: option.splits)

lemma NewPath_loop_template:
  "fst (snd (NewPath_loop Hash es (m, t, off, any))) =
     t @ concat (map (\<lambda>e. case e of None \<Rightarrow> zeroIntBytes | Some bs \<Rightarrow> hash Hash bs) es)"
  by (induction es arbitrary: m t off any) (auto split: option.splits)

lemma NewPath_loop_any:
  "snd (snd (snd (NewPath_loop Hash es (m, t, off, any)))) = (any \<or> None \<in> set es)"
  by (induction es arbitrary: m t off any) (auto split: option.splits)

lemma NewPath_loop_offset_any:
  "fst (snd (snd (NewPath_loop Hash es (m, t, off, True)))) = off"
  by (induction es arbitrary: m t) (auto split: option.splits)

lemma NewPath_loop_offset:
  "fst (snd (snd (NewPath_loop Hash es (m, t, off, False)))) =
     off + 8 * length (takeWhile (\<lambda>e. e \<noteq> None) es)"
  by (induction es arbitrary: m t off) (auto split: option.splits simp: NewPath_loop_offset_any)

lemma concat_chunks_length:
  "(\<And>x. length (f x) = 8) \<Longrightarrow> length (concat (map f xs)) = 8 * length xs"
  by (induction xs) auto

lemma take_concat_chunks:
  "(\<And>x. length (f x) = 8) \<Longrightarrow>
     take (8 * length (takeWhile P xs)) (concat (map f xs)) = concat (map f (takeWhile P xs))"
  by (induction xs) auto

lemma entry_template_length:
  "length (case e of None \<Rightarrow> zeroIntBytes | Some bs \<Rightarrow> hash Hash bs) = 8"
  by (simp add: zeroIntBytes_eq length_hash split: option.splits)

lemma entry_mask_length:
  "length (case e of None \<Rightarrow> zeroIntBytes | Some bs \<Rightarrow> maxIntBytes) = 8"
  by (simp add: zeroIntBytes_eq maxIntBytes_eq split: option.splits)

lemma NewPath_template:
  "template (NewPath Hash es) =
     concat (map (\<lambda>e. case e of None \<Rightarrow> zeroIntBytes | Some bs \<Rightarrow> hash Hash bs) es)"
  using NewPath_loop_template [of Hash es "[]" "[]" 0 False]
  by (cases "NewPath_loop Hash es ([], [], 0, False)") (simp add: NewPath_def)

lemma NewPath_mask:
  "mask_p (NewPath Hash es) =
     concat (map (\<lambda>e. case e of None \<Rightarrow> zeroIntBytes | Some bs \<Rightarrow> maxIntBytes) es)"
  using NewPath_loop_mask [of Hash es "[]" "[]" 0 False]
  by (cases "NewPath_loop Hash es ([], [], 0, False)") (simp add: NewPath_def)

lemma NewPath_isFull: "isFull (NewPath Hash es) = (None \<notin> set es)"
  using NewPath_loop_any [of Hash es "[]" "[]" 0 False]
  by (cases "NewPath_loop Hash es ([], [], 0, False)") (simp add: NewPath_def)

lemma NewPath_prefix:
  "prefix (NewPath Hash es) =
     concat (map (\<lambda>e. case e of None \<Rightarrow> zeroIntBytes | Some bs \<Rightarrow> hash Hash bs)
       (takeWhile (\<lambda>e. e \<noteq> None) es))"
proof -
  obtain m t off any where st: "NewPath_loop Hash es ([], [], 0, False) = (m, t, off, any)"
    by (cases "NewPath_loop Hash es ([], [], 0, False)") auto
  have t: "t = concat (map (\<lambda>e. case e of None \<Rightarrow> zeroIntBytes | Some bs \<Rightarrow> hash Hash bs) es)"
    using NewPath_loop_template [of Hash es "[]" "[]" 0 False] st by simp
  have off: "off = 8 * length (takeWhile (\<lambda>e. e \<noteq> None) es)"
    using NewPath_loop_offset [of Hash es "[]" "[]" 0] st by simp
  have "prefix (NewPath Hash es) = take off t"
    by (simp add: NewPath_def st)
  also have "\<dots> = concat (map (\<lambda>e. case e of None \<Rightarrow> zeroIntBytes | Some bs \<Rightarrow> hash Hash bs)
       (takeWhile (\<lambda>e. e \<noteq> None) es))"
    unfolding t off by (rule take_concat_chunks) (rule entry_template_length)
  finally show ?thesis .
qed

text \<open>
  Claim C4. For an entity of \<open>n\<close> entries, \<open>NewPath\<close> builds a template and a mask of
  \<open>8 * n\<close> bytes: a concrete entry contributes its 8-byte hash to the template and eight
  \<open>0xFF\<close> bytes to the mask, the ANY (nil) entry eight zero bytes to both; the prefix is
  the template of the longest leading run of concrete entries; and \<open>isFull\<close> holds exactly
  when no entry is ANY.
\<close>

theorem NewPath_layout:
  "template (NewPath Hash es) =
     concat (map (\<lambda>e. case e of None \<Rightarrow> replicate 8 0 | Some bs \<Rightarrow> hash Hash bs) es)
   \<and> mask_p (NewPath Hash es) =
     concat (map (\<lambda>e. case e of None \<Rightarrow> replicate 8 0 | Some bs \<Rightarrow> replicate 8 255) es)
   \<and> length (template (NewPath Hash es)) = 8 * length es
   \<and> length (mask_p (NewPath Hash es)) = 8 * length es
   \<and> prefix (NewPath Hash es) =
     concat (map (\<lambda>e. case e of None \<Rightarrow> replicate 8 0 | Some bs \<Rightarrow> hash Hash bs)
       (takeWhile (\<lambda>e. e \<noteq> AnyEntry) es))
   \<and> isFull (NewPath Hash es) = (AnyEntry \<notin> set es)"
proof -
  have len_t: "length (template (NewPath Hash es)) = 8 * length es"
    unfolding NewPath_template by (rule concat_chunks_length) (rule entry_template_length)
  have len_m: "length (mask_p (NewPath Hash es)) = 8 * length es"
    unfolding NewPath_mask by (rule concat_chunks_length) (rule entry_mask_length)
  show ?thesis
    using len_t len_m
    unfolding NewPath_template NewPath_mask NewPath_prefix NewPath_isFull AnyEntry_def
      zeroIntBytes_eq maxIntBytes_eq
    by simp
qed

theorem NewPath_layout_witness:
  "template (NewPath example_Hash [Some [1], None, Some [2, 3]]) =
     [0, 0, 0, 0, 0, 0, 0, 1, 0, 0, 0, 0, 0, 0, 0, 0, 0, 0, 0, 0, 0, 0, 0, 2]
   \<and> mask_p (NewPath example_Hash [Some [1], None, Some [2, 3]]) =
     [255, 255, 255, 255, 255, 255, 255, 255, 0, 0, 0, 0, 0, 0, 0, 0,
      255, 255, 255, 255, 255, 255, 255, 255]
   \<and> prefix (NewPath example_Hash [Some [1], None, Some [2, 3]]) = [0, 0, 0, 0, 0, 0, 0, 1]
   \<and> \<not> isFull (NewPath example_Hash [Some [1], None, Some [2, 3]])"
proof -
  have h: "hash example_Hash [1] = [0, 0, 0, 0, 0, 0, 0, 1]"
    "hash example_Hash [2, 3] = [0, 0, 0, 0, 0, 0, 0, 2]"
    by (simp_all add: hash_def Uint64ToBytes_def example_Hash_def)
  have r: "replicate 8 (0::byte) = [0, 0, 0, 0, 0, 0, 0, 0]"
    "replicate 8 (255::byte) = [255, 255, 255, 255, 255, 255, 255, 255]"
    by (simp_all add: numeral_eq_Suc)
  show ?thesis
    using NewPath_layout [of example_Hash "[Some [1], None, Some [2, 3]]"]
    unfolding AnyEntry_def by (simp add: h r)
qed

section \<open>Properties of the series directory\<close>

subsection \<open>Get\<close>

lemma HashEntity_concat:
  "HashEntity Hash ent = concat (map (\<lambda>e. hash Hash (entryBytes e)) ent)"
proof -
  have "foldl (\<lambda>result entry. result @ hash Hash (entryBytes entry)) acc ent =
      acc @ concat (map (\<lambda>e. hash Hash (entryBytes e)) ent)" for acc
    by (induction ent arbitrary: acc) simp_all
  then show ?thesis
    by (simp add: HashEntity_def)
qed

text \<open>
  Claim C5, amended. \<^verbatim>\<open>Get\<close> computes the key of the entity as the concatenation of the
  8-byte hashes of its entries and looks that key up in the series-metadata store. A key
  that is there gives the series of the stored id, and the store is left as it was. For a
  key that is absent \<^verbatim>\<open>Get\<close> puts the value \<open>hash(key)\<close> under \<open>key\<close> (the mapping
  \<open>key \<mapsto> hash(key)\<close>, every other key as before) and returns the series whose id is
  read from \<open>hash(key)\<close>. An error of the lookup other than "not found", or of the put, is
  returned and the store is left as it was.
\<close>

theorem seriesDB_Get_spec:
  assumes "key = concat (map (\<lambda>e. hash Hash (entryBytes e)) ent)"
    and "md = seriesMetadata s"
  shows "HashEntity Hash ent = key
     \<and> (\<forall>v. getErr md key = None \<and> map_of (entries md) key = Some v \<longrightarrow>
          seriesDB_Get Hash BytesToUint64 s ent =
            (Inr (newSeries (bytesConvSeriesID BytesToUint64 v) (sID s)), s))
     \<and> (getErr md key = None \<and> map_of (entries md) key = None
          \<and> putErr md key (hash Hash key) = None \<longrightarrow>
          (\<exists>s'. seriesDB_Get Hash BytesToUint64 s ent =
              (Inr (newSeries (bytesConvSeriesID BytesToUint64 (hash Hash key)) (sID s)), s')
            \<and> map_of (entries (seriesMetadata s')) = (map_of (entries md))(key \<mapsto> hash Hash key)
            \<and> seriesDB.lst s' = seriesDB.lst s \<and> sID s' = sID s))
     \<and> (\<forall>err. getErr md key = Some err \<and> err \<noteq> ErrKeyNotFound \<longrightarrow>
          seriesDB_Get Hash BytesToUint64 s ent = (Inl err, s))
     \<and> (\<forall>err. getErr md key = None \<and> map_of (entries md) key = None
          \<and> putErr md key (hash Hash key) = Some err \<longrightarrow>
          seriesDB_Get Hash BytesToUint64 s ent = (Inl err, s))"
  unfolding seriesDB_Get_def Let_def HashEntity_concat assms(1) [symmetric] assms(2)
  by (auto simp: seriesDB_GetByHashKey_def kvGet_def kvPut_def update_conv' Let_def)

theorem seriesDB_Get_spec_witness:
  "fst (seriesDB_Get example_Hash example_BytesToUint64 (example_db (example_store []))
       [Some [1], Some [2, 3]]) = Inr (newSeries 16 0)
   \<and> fst (seriesDB_Get example_Hash example_BytesToUint64
       (example_db (example_store [([0, 0, 0, 0, 0, 0, 0, 1, 0, 0, 0, 0, 0, 0, 0, 2], [0, 0, 0, 0, 0, 0, 0, 5])]))
       [Some [1], Some [2, 3]]) = Inr (newSeries 5 0)"
proof -
  let ?key = "[0, 0, 0, 0, 0, 0, 0, 1, 0, 0, 0, 0, 0, 0, 0, 2] :: bytes"
  let ?s0 = "example_db (example_store [])"
  let ?s1 = "example_db (example_store [(?key, [0, 0, 0, 0, 0, 0, 0, 5])])"
  have k: "?key = concat (map (\<lambda>e. hash example_Hash (entryBytes e)) [Some [1], Some [2, 3]])"
    by (simp add: hash_def Uint64ToBytes_def example_Hash_def entryBytes_def)
  have h: "hash example_Hash ?key = [0, 0, 0, 0, 0, 0, 0, 16]"
    by (simp add: hash_def Uint64ToBytes_def example_Hash_def)
  have c16: "bytesConvSeriesID example_BytesToUint64 [0, 0, 0, 0, 0, 0, 0, 16] = 16"
    by (simp add: bytesConvSeriesID_def example_BytesToUint64_def)
  have c5: "bytesConvSeriesID example_BytesToUint64 [0, 0, 0, 0, 0, 0, 0, 5] = 5"
    by (simp add: bytesConvSeriesID_def example_BytesToUint64_def)
  have a0: "getErr (seriesMetadata ?s0) ?key = None \<and> map_of (entries (seriesMetadata ?s0)) ?key = None
      \<and> putErr (seriesMetadata ?s0) ?key (hash example_Hash ?key) = None"
    by (simp add: example_db_def example_store_def)
  have a1: "getErr (seriesMetadata ?s1) ?key = None
      \<and> map_of (entries (seriesMetadata ?s1)) ?key = Some [0, 0, 0, 0, 0, 0, 0, 5]"
    by (simp add: example_db_def example_store_def)
  have 0: "fst (seriesDB_Get example_Hash example_BytesToUint64 ?s0 [Some [1], Some [2, 3]]) =
      Inr (newSeries 16 0)"
    using seriesDB_Get_spec [OF k refl, of ?s0 example_BytesToUint64] a0
    unfolding h c16 by (auto simp: example_db_def)
  have 1: "fst (seriesDB_Get example_Hash example_BytesToUint64 ?s1 [Some [1], Some [2, 3]]) =
      Inr (newSeries 5 0)"
    using seriesDB_Get_spec [OF k refl, of ?s1 example_BytesToUint64] a1
    by (auto simp: example_db_def c5)
  show ?thesis using 0 1 by simp
qed

text \<open>
  The claim as it was stated fails: after \<^verbatim>\<open>Get\<close> on an empty store the one pair of the
  store has the entity key as its key and \<open>hash(key)\<close> as its value, and nothing is stored
  under \<open>hash(key)\<close>.
\<close>

theorem seriesDB_Get_writes_key_to_hash:
  "HashEntity example_Hash [Some [1], Some [2, 3]] = [0, 0, 0, 0, 0, 0, 0, 1, 0, 0, 0, 0, 0, 0, 0, 2]
   \<and> hash example_Hash [0, 0, 0, 0, 0, 0, 0, 1, 0, 0, 0, 0, 0, 0, 0, 2] = [0, 0, 0, 0, 0, 0, 0, 16]
   \<and> entries (seriesMetadata (snd (seriesDB_Get example_Hash example_BytesToUint64
        (example_db (example_store [])) [Some [1], Some [2, 3]]))) =
      [([0, 0, 0, 0, 0, 0, 0, 1, 0, 0, 0, 0, 0, 0, 0, 2], [0, 0, 0, 0, 0, 0, 0, 16])]
   \<and> map_of (entries (seriesMetadata (snd (seriesDB_Get example_Hash example_BytesToUint64
        (example_db (example_store [])) [Some [1], Some [2, 3]])))) [0, 0, 0, 0, 0, 0, 0, 16] = None"
  by (simp add: seriesDB_Get_def seriesDB_GetByHashKey_def HashEntity_def hash_def
      Uint64ToBytes_def example_Hash_def example_db_def example_store_def entryBytes_def
      kvGet_def kvPut_def Let_def)

subsection \<open>List\<close>

lemma List_scan_result:
  assumes "\<forall>(k, v)\<in>set kvs. length k \<le> length (mask_p path)"
  shows "List_scan conv s path kvs (result, err) =
     Returns
       (result @ map (\<lambda>(k, v). newSeries (bytesConvSeriesID conv v) (sID s))
          (filter (\<lambda>(k, v). map2 (\<lambda>m b. m AND b) (mask_p path) k = template path
              \<and> getValErr (seriesMetadata s) k = None) kvs),
        err @ map (\<lambda>(k, v). the (getValErr (seriesMetadata s) k))
          (filter (\<lambda>(k, v). map2 (\<lambda>m b. m AND b) (mask_p path) k = template path
              \<and> getValErr (seriesMetadata s) k \<noteq> None) kvs))"
  using assms
proof (induction kvs arbitrary: result err)
  case Nil
  then show ?case by simp
next
  case (Cons kv kvs)
  obtain k v where kv: "kv = (k, v)" by (cases kv)
  have len: "\<not> length (mask_p path) < length k"
    using Cons.prems kv by auto
  have rest: "\<forall>(k, v)\<in>set kvs. length k \<le> length (mask_p path)"
    using Cons.prems by simp
  note IH = Cons.IH [OF rest]
  show ?case
    unfolding kv using len
    by (auto simp: IH getVal_def Let_def split: option.splits)
qed

text \<open>
  Claim C6, amended. For a full path \<^verbatim>\<open>List\<close> makes one point get on the prefix: a stored
  id gives the one series, "not found" the empty list with a nil error, any other error
  is returned. For a path that is not full, a failing scan returns its error and no
  series; otherwise, when no scanned key is longer than the mask, \<^verbatim>\<open>List\<close> returns in scan
  order the series of the scanned keys \<open>k\<close> with \<open>(k & mask) = template\<close> whose value could
  be read, together with the read errors of the other such keys (nil when there are none).
\<close>

theorem seriesDB_List_spec:
  assumes "md = seriesMetadata s"
  shows "(isFull path \<longrightarrow>
        (\<forall>v. getErr md (prefix path) = None \<and> map_of (entries md) (prefix path) = Some v \<longrightarrow>
           seriesDB_List conv s path =
             Returns ([newSeries (bytesConvSeriesID conv v) (sID s)], []))
      \<and> (getErr md (prefix path) = None \<and> map_of (entries md) (prefix path) = None \<longrightarrow>
           seriesDB_List conv s path = Returns ([], []))
      \<and> (getErr md (prefix path) = Some ErrKeyNotFound \<longrightarrow>
           seriesDB_List conv s path = Returns ([], []))
      \<and> (\<forall>err. getErr md (prefix path) = Some err \<and> err \<noteq> ErrKeyNotFound \<longrightarrow>
           seriesDB_List conv s path = Returns ([], [err])))
   \<and> (\<not> isFull path \<longrightarrow>
        (\<forall>errScan. scanErr md (prefix path) = Some errScan \<longrightarrow>
           seriesDB_List conv s path = Returns ([], [errScan]))
      \<and> (scanErr md (prefix path) = None
           \<and> (\<forall>(k, v)\<in>set (kvScan md (prefix path)). length k \<le> length (mask_p path)) \<longrightarrow>
           seriesDB_List conv s path =
             Returns
               (map (\<lambda>(k, v). newSeries (bytesConvSeriesID conv v) (sID s))
                  (filter (\<lambda>(k, v). map2 (\<lambda>m b. m AND b) (mask_p path) k = template path
                      \<and> getValErr md k = None) (kvScan md (prefix path))),
                map (\<lambda>(k, v). the (getValErr md k))
                  (filter (\<lambda>(k, v). map2 (\<lambda>m b. m AND b) (mask_p path) k = template path
                      \<and> getValErr md k \<noteq> None) (kvScan md (prefix path))))))"
proof (intro conjI impI allI)
  fix errScan
  assume "\<not> isFull path" "scanErr md (prefix path) = Some errScan"
  then show "seriesDB_List conv s path = Returns ([], [errScan])"
    by (simp add: seriesDB_List_def assms)
next
  assume nf: "\<not> isFull path"
    and h: "scanErr md (prefix path) = None
      \<and> (\<forall>(k, v)\<in>set (kvScan md (prefix path)). length k \<le> length (mask_p path))"
  have "seriesDB_List conv s path =
      List_scan conv s path (kvScan md (prefix path)) ([], [])"
    using nf h by (simp add: seriesDB_List_def assms)
  also have "\<dots> = Returns
               (map (\<lambda>(k, v). newSeries (bytesConvSeriesID conv v) (sID s))
                  (filter (\<lambda>(k, v). map2 (\<lambda>m b. m AND b) (mask_p path) k = template path
                      \<and> getValErr md k = None) (kvScan md (prefix path))),
                map (\<lambda>(k, v). the (getValErr md k))
                  (filter (\<lambda>(k, v). map2 (\<lambda>m b. m AND b) (mask_p path) k = template path
                      \<and> getValErr md k \<noteq> None) (kvScan md (prefix path))))"
    using List_scan_result [of "kvScan md (prefix path)" path conv s "[]" "[]"] h
    by (simp add: assms)
  finally show "seriesDB_List conv s path = Returns
               (map (\<lambda>(k, v). newSeries (bytesConvSeriesID conv v) (sID s))
                  (filter (\<lambda>(k, v). map2 (\<lambda>m b. m AND b) (mask_p path) k = template path
                      \<and> getValErr md k = None) (kvScan md (prefix path))),
                map (\<lambda>(k, v). the (getValErr md k))
                  (filter (\<lambda>(k, v). map2 (\<lambda>m b. m AND b) (mask_p path) k = template path
                      \<and> getValErr md k \<noteq> None) (kvScan md (prefix path))))" .
qed (auto simp: seriesDB_List_def kvGet_def assms)

lemma example_paths:
  "NewPath example_Hash [None, Some [2, 3]] =
     \<lparr>prefix = [], mask_p = [0, 0, 0, 0, 0, 0, 0, 0, 255, 255, 255, 255, 255, 255, 255, 255],
      template = [0, 0, 0, 0, 0, 0, 0, 0, 0, 0, 0, 0, 0, 0, 0, 2], isFull = False\<rparr>"
  "NewPath example_Hash [Some [1], Some [2, 3]] =
     \<lparr>prefix = [0, 0, 0, 0, 0, 0, 0, 1, 0, 0, 0, 0, 0, 0, 0, 2],
      mask_p = [255, 255, 255, 255, 255, 255, 255, 255, 255, 255, 255, 255, 255, 255, 255, 255],
      template = [0, 0, 0, 0, 0, 0, 0, 1, 0, 0, 0, 0, 0, 0, 0, 2], isFull = True\<rparr>"
  by (simp_all add: NewPath_def hash_def Uint64ToBytes_def example_Hash_def
      maxIntBytes_def zeroIntBytes_def)

theorem seriesDB_List_spec_witness:
  "seriesDB_List example_BytesToUint64
      (example_db (example_store
         [([0, 0, 0, 0, 0, 0, 0, 1, 0, 0, 0, 0, 0, 0, 0, 2], [0, 0, 0, 0, 0, 0, 0, 5]),
          ([0, 0, 0, 0, 0, 0, 0, 1, 0, 0, 0, 0, 0, 0, 0, 3], [0, 0, 0, 0, 0, 0, 0, 6]),
          ([0, 0, 0, 0, 0, 0, 0, 7, 0, 0, 0, 0, 0, 0, 0, 2], [0, 0, 0, 0, 0, 0, 0, 9])]))
      (NewPath example_Hash [None, Some [2, 3]]) = Returns ([newSeries 5 0, newSeries 9 0], [])
   \<and> seriesDB_List example_BytesToUint64
      (example_db (example_store
         [([0, 0, 0, 0, 0, 0, 0, 1, 0, 0, 0, 0, 0, 0, 0, 2], [0, 0, 0, 0, 0, 0, 0, 5])]))
      (NewPath example_Hash [Some [1], Some [2, 3]]) = Returns ([newSeries 5 0], [])
   \<and> seriesDB_List example_BytesToUint64 (example_db (example_store []))
      (NewPath example_Hash [Some [1], Some [2, 3]]) = Returns ([], [])"
proof -
  let ?kvs = "[([0, 0, 0, 0, 0, 0, 0, 1, 0, 0, 0, 0, 0, 0, 0, 2], [0, 0, 0, 0, 0, 0, 0, 5]),
          ([0, 0, 0, 0, 0, 0, 0, 1, 0, 0, 0, 0, 0, 0, 0, 3], [0, 0, 0, 0, 0, 0, 0, 6]),
          ([0, 0, 0, 0, 0, 0, 0, 7, 0, 0, 0, 0, 0, 0, 0, 2], [0, 0, 0, 0, 0, 0, 0, 9])] :: (bytes \<times> bytes) list"
  let ?one = "[([0, 0, 0, 0, 0, 0, 0, 1, 0, 0, 0, 0, 0, 0, 0, 2], [0, 0, 0, 0, 0, 0, 0, 5])] :: (bytes \<times> bytes) list"
  let ?p = "NewPath example_Hash [None, Some [2, 3]]"
  let ?q = "NewPath example_Hash [Some [1], Some [2, 3]]"
  have c: "bytesConvSeriesID example_BytesToUint64 [0, 0, 0, 0, 0, 0, 0, 5] = 5"
    "bytesConvSeriesID example_BytesToUint64 [0, 0, 0, 0, 0, 0, 0, 9] = 9"
    by (simp_all add: bytesConvSeriesID_def example_BytesToUint64_def)
  have scan: "\<not> isFull ?p" "scanErr (example_store ?kvs) (prefix ?p) = None
      \<and> (\<forall>(k, v)\<in>set (kvScan (example_store ?kvs) (prefix ?p)). length k \<le> length (mask_p ?p))"
    unfolding example_paths by (simp_all add: example_store_def kvScan_def)
  have 1: "seriesDB_List example_BytesToUint64 (example_db (example_store ?kvs)) ?p =
      Returns ([newSeries 5 0, newSeries 9 0], [])"
  proof -
    have "seriesDB_List example_BytesToUint64 (example_db (example_store ?kvs)) ?p =
        Returns
          (map (\<lambda>(k, v). newSeries (bytesConvSeriesID example_BytesToUint64 v)
              (sID (example_db (example_store ?kvs))))
             (filter (\<lambda>(k, v). map2 (\<lambda>m b. m AND b) (mask_p ?p) k = template ?p
                 \<and> getValErr (example_store ?kvs) k = None) (kvScan (example_store ?kvs) (prefix ?p))),
           map (\<lambda>(k, v). the (getValErr (example_store ?kvs) k))
             (filter (\<lambda>(k, v). map2 (\<lambda>m b. m AND b) (mask_p ?p) k = template ?p
                 \<and> getValErr (example_store ?kvs) k \<noteq> None) (kvScan (example_store ?kvs) (prefix ?p))))"
      using seriesDB_List_spec [of "example_store ?kvs" "example_db (example_store ?kvs)" ?p
          example_BytesToUint64] scan
      by (simp add: example_db_def)
    also have "\<dots> = Returns ([newSeries 5 0, newSeries 9 0], [])"
      unfolding example_paths by (simp add: example_store_def example_db_def kvScan_def c)
    finally show ?thesis .
  qed
  have full: "isFull ?q"
    unfolding example_paths by simp
  have 2: "seriesDB_List example_BytesToUint64 (example_db (example_store ?one)) ?q =
      Returns ([newSeries 5 0], [])"
  proof -
    have "getErr (example_store ?one) (prefix ?q) = None
        \<and> map_of (entries (example_store ?one)) (prefix ?q) = Some [0, 0, 0, 0, 0, 0, 0, 5]"
      unfolding example_paths by (simp add: example_store_def)
    then show ?thesis
      using seriesDB_List_spec [of "example_store ?one" "example_db (example_store ?one)" ?q
          example_BytesToUint64] full
      by (simp add: example_db_def c)
  qed
  have 3: "seriesDB_List example_BytesToUint64 (example_db (example_store [])) ?q = Returns ([], [])"
  proof -
    have "getErr (example_store []) (prefix ?q) = None
        \<and> map_of (entries (example_store [])) (prefix ?q) = None"
      by (simp add: example_store_def)
    then show ?thesis
      using seriesDB_List_spec [of "example_store []" "example_db (example_store [])" ?q
          example_BytesToUint64] full
      by (simp add: example_db_def)
  qed
  show ?thesis
    using 1 2 3 by simp
qed

text \<open>
  The claim as it was stated fails: a scanned key that passes the mask test and whose
  value cannot be read is left out of the result, and the read error is returned with it.
\<close>

theorem seriesDB_List_unreadable_value:
  "kvScan (example_unreadable [([0, 0, 0, 0, 0, 0, 0, 1, 0, 0, 0, 0, 0, 0, 0, 2], [0, 0, 0, 0, 0, 0, 0, 5])]
        [0, 0, 0, 0, 0, 0, 0, 1, 0, 0, 0, 0, 0, 0, 0, 2])
      (prefix (NewPath example_Hash [None, Some [2, 3]])) =
     [([0, 0, 0, 0, 0, 0, 0, 1, 0, 0, 0, 0, 0, 0, 0, 2], [0, 0, 0, 0, 0, 0, 0, 5])]
   \<and> map2 (\<lambda>m b. m AND b) (mask_p (NewPath example_Hash [None, Some [2, 3]]))
        [0, 0, 0, 0, 0, 0, 0, 1, 0, 0, 0, 0, 0, 0, 0, 2] =
      template (NewPath example_Hash [None, Some [2, 3]])
   \<and> seriesDB_List example_BytesToUint64
        (example_db (example_unreadable
           [([0, 0, 0, 0, 0, 0, 0, 1, 0, 0, 0, 0, 0, 0, 0, 2], [0, 0, 0, 0, 0, 0, 0, 5])]
           [0, 0, 0, 0, 0, 0, 0, 1, 0, 0, 0, 0, 0, 0, 0, 2]))
        (NewPath example_Hash [None, Some [2, 3]]) = Returns ([], [KVError ''read''])"
  unfolding example_paths
  by (simp add: seriesDB_List_def kvScan_def getVal_def example_unreadable_def example_store_def
      example_db_def)

text \<open>
  A scanned key longer than the mask is not guarded against: the callback reads
  \<^verbatim>\<open>path.mask[i]\<close> out of range and \<^verbatim>\<open>List\<close> panics.
\<close>

lemma seriesDB_List_long_key_panics:
  "seriesDB_List example_BytesToUint64
     (example_db (example_store
        [([0, 0, 0, 0, 0, 0, 0, 1, 0, 0, 0, 0, 0, 0, 0, 2], [0, 0, 0, 0, 0, 0, 0, 5])]))
     (NewPath example_Hash [None]) = Panics"
  by (simp add: seriesDB_List_def NewPath_def kvScan_def zeroIntBytes_def Uint64ToBytes_def
      example_db_def example_store_def)

subsection \<open>span\<close>

text \<open>
  What \<^verbatim>\<open>span\<close> computes: it does not read its time range, and it reads the first
  segment only.
\<close>

lemma seriesDB_span_reads_first_segment:
  "seriesDB_span s tr = seriesDB_span s tr'
   \<and> (\<forall>seg rest. seriesDB.lst s = seg # rest \<longrightarrow>
        seriesDB_span s tr = Returns (map delegate (segment.lst seg)))"
  by (simp add: seriesDB_span_def)

text \<open>
  Claim C9, at the failing input. The database holds the blocks 1, 2 and 3 in two
  segments. For either time range \<^verbatim>\<open>span\<close> returns the delegates of the blocks 1 and 2 of
  the first segment: the result does not depend on the time range and does not cover the
  block of the second segment.
\<close>

theorem seriesDB_span_misses_later_segments:
  "concat (map segment.lst (seriesDB.lst (example_db (example_store [])))) = [1, 2, 3]
   \<and> seriesDB_span (example_db (example_store [])) \<lparr>Start = 0, End = 10\<rparr> =
       Returns [delegate 1, delegate 2]
   \<and> seriesDB_span (example_db (example_store [])) \<lparr>Start = 500, End = 600\<rparr> =
       Returns [delegate 1, delegate 2]"
  by (simp add: seriesDB_span_def example_db_def)

section \<open>Properties of Analyze\<close>

subsection \<open>The loop over the conditions\<close>

lemma analyzeCond_step:
  assumes "analyzeCond h s c (lm, gc) = Returns (Inr (lm', gc'))"
  shows "lm' = (if targets h s LOCATION_SERIES c
                then lm(the (ruleOf s c) \<mapsto> (case lm (the (ruleOf s c)) of None \<Rightarrow> [] | Some v \<Rightarrow> v) @ [c])
                else lm)
       \<and> gc' = (if targets h s LOCATION_GLOBAL c
                then gc @ [RuleV (the (ruleOf s c)), ExprV c] else gc)"
  using assms
  by (cases c; auto simp: targets_def split: option.splits Expr.splits prod.splits if_splits)

lemma analyzeCond_passes:
  "(\<exists>st'. analyzeCond h s c st = Returns (Inr st')) \<longleftrightarrow> condPasses h s c"
  by (cases st; cases c; auto simp: condPasses_def split: option.splits Expr.splits prod.splits if_splits)

text \<open>What passing the loop body means for a condition, read off the code.\<close>

lemma condPasses_iff:
  "condPasses h s c \<longleftrightarrow>
     (isResolvableExpr c \<longrightarrow>
        Resolve s c = None \<and>
        (\<forall>opr lhs rhs. c = binaryExpr opr lhs rhs \<longrightarrow>
           (\<exists>f. lhs = FieldRefExpr f \<and> fst (IndexDefined s (tag f)))))"
  by (cases c; auto simp: condPasses_def split: option.splits Expr.splits prod.splits if_splits)

lemma analyzeConds_append:
  "analyzeConds h s (xs @ ys) st =
     (case analyzeConds h s xs st of
        Returns (Inr st') \<Rightarrow> analyzeConds h s ys st'
      | Returns (Inl err) \<Rightarrow> Returns (Inl err)
      | Panics \<Rightarrow> Panics)"
  by (induction xs arbitrary: st) (auto split: outcome.splits sum.splits)

lemma analyzeConds_passes:
  "(\<exists>st'. analyzeConds h s cs st = Returns (Inr st')) \<longleftrightarrow> (\<forall>c\<in>set cs. condPasses h s c)"
proof (induction cs arbitrary: st)
  case Nil
  then show ?case by simp
next
  case (Cons c cs)
  show ?case
  proof (cases "analyzeCond h s c st")
    case Panics
    then show ?thesis
      using analyzeCond_passes [of h s c st] by auto
  next
    case (Returns r)
    show ?thesis
    proof (cases r)
      case (Inl e)
      then show ?thesis
        using Returns analyzeCond_passes [of h s c st] by auto
    next
      case (Inr st1)
      then have "condPasses h s c"
        using Returns analyzeCond_passes [of h s c st] by auto
      then show ?thesis
        using Returns Inr Cons.IH [of st1] by simp
    qed
  qed
qed

lemma analyzeConds_local:
  assumes "analyzeConds h s cs (lm, gc) = Returns (Inr (lm', gc'))"
  shows "lm' k =
     (if filter (\<lambda>c. ruleOf s c = Some k \<and> GetLocation h k = LOCATION_SERIES) cs = [] then lm k
      else Some ((case lm k of None \<Rightarrow> [] | Some v \<Rightarrow> v) @
        filter (\<lambda>c. ruleOf s c = Some k \<and> GetLocation h k = LOCATION_SERIES) cs))"
  using assms
proof (induction cs arbitrary: lm gc)
  case Nil
  then show ?case by simp
next
  case (Cons c cs)
  from Cons.prems obtain lm1 gc1 where
    step: "analyzeCond h s c (lm, gc) = Returns (Inr (lm1, gc1))" and
    rest: "analyzeConds h s cs (lm1, gc1) = Returns (Inr (lm', gc'))"
    by (auto split: outcome.splits sum.splits)
  note IH = Cons.IH [OF rest]
  have lm1: "lm1 = (if targets h s LOCATION_SERIES c
                then lm(the (ruleOf s c) \<mapsto> (case lm (the (ruleOf s c)) of None \<Rightarrow> [] | Some v \<Rightarrow> v) @ [c])
                else lm)"
    using analyzeCond_step [OF step] by simp
  show ?case
    unfolding IH lm1
    by (auto simp: targets_def split: option.splits)
qed

lemma analyzeConds_global:
  assumes "analyzeConds h s cs (lm, gc) = Returns (Inr (lm', gc'))"
  shows "gc' = gc @ concat (map (\<lambda>c. [RuleV (the (ruleOf s c)), ExprV c])
                 (filter (targets h s LOCATION_GLOBAL) cs))"
  using assms
proof (induction cs arbitrary: lm gc)
  case Nil
  then show ?case by simp
next
  case (Cons c cs)
  from Cons.prems obtain lm1 gc1 where
    step: "analyzeCond h s c (lm, gc) = Returns (Inr (lm1, gc1))" and
    rest: "analyzeConds h s cs (lm1, gc1) = Returns (Inr (lm', gc'))"
    by (auto split: outcome.splits sum.splits)
  note IH = Cons.IH [OF rest]
  have gc1: "gc1 = (if targets h s LOCATION_GLOBAL c
                then gc @ [RuleV (the (ruleOf s c)), ExprV c] else gc)"
    using analyzeCond_step [OF step] by simp
  show ?case
    unfolding IH gc1 by simp
qed

lemma analyzeCond_undefined:
  assumes "c = binaryExpr opr (FieldRefExpr f) rhs" and "\<not> fst (IndexDefined s (tag f))"
  shows "analyzeCond h s c st =
     (case Resolve s c of
        Some err \<Rightarrow> Returns (Inl err)
      | None \<Rightarrow> Returns (Inl (Wrap ErrIndexNotDefined (GetCompoundName (tag f)))))"
  using assms by (cases st) (auto split: option.splits prod.splits)

lemma analyzeCond_dropped:
  assumes "c = binaryExpr opr (FieldRefExpr f) rhs" and "Resolve s c = None"
    and "IndexDefined s (tag f) = (True, x)"
    and "GetLocation h x \<noteq> LOCATION_SERIES" and "GetLocation h x \<noteq> LOCATION_GLOBAL"
  shows "analyzeCond h s c st = Returns (Inr st)"
  using assms by (cases st) auto

text \<open>Panics of the loop, and the calls it makes.\<close>

lemma analyzeCond_panics:
  "analyzeCond h s c st = Panics \<longleftrightarrow> condPanics h s c"
  by (cases st; cases c; auto simp: condPanics_def split: option.splits Expr.splits prod.splits if_splits)

lemma condPanics_iff:
  "condPanics h s c \<longleftrightarrow>
     (\<exists>opr lhs rhs. c = binaryExpr opr lhs rhs \<and> Resolve s c = None
        \<and> (\<forall>f. lhs \<noteq> FieldRefExpr f))"
  by (cases c; auto simp: condPanics_def split: option.splits Expr.splits prod.splits if_splits)

lemma analyzeConds_panics:
  "analyzeConds h s cs st = Panics \<Longrightarrow> \<exists>x\<in>set cs. condPanics h s x"
proof (induction cs arbitrary: st)
  case Nil
  then show ?case by simp
next
  case (Cons c cs)
  show ?case
  proof (cases "analyzeCond h s c st")
    case Panics
    then show ?thesis
      using analyzeCond_panics [of h s c st] by simp
  next
    case (Returns r)
    then show ?thesis
      using Cons by (cases r) auto
  qed
qed

lemma analyzeConds_calls_passed:
  assumes "\<forall>x\<in>set cs. condPasses h s x"
  shows "analyzeConds_calls h s (cs @ ds) st =
     concat (map (analyzeCond_calls s) cs) @
     (case analyzeConds h s cs st of
        Returns (Inr st') \<Rightarrow> analyzeConds_calls h s ds st'
      | _ \<Rightarrow> [])"
  using assms
proof (induction cs arbitrary: st)
  case Nil
  then show ?case by simp
next
  case (Cons c cs)
  from Cons.prems have "condPasses h s c" by simp
  then obtain st1 where st1: "analyzeCond h s c st = Returns (Inr st1)"
    using analyzeCond_passes [of h s c st] by blast
  have rest: "\<forall>x\<in>set cs. condPasses h s x"
    using Cons.prems by simp
  show ?case
    using Cons.IH [OF rest, of st1] st1 by simp
qed

lemma analyzeConds_calls_safe:
  "\<forall>x\<in>set (analyzeConds_calls h s cs st). \<not> onExecutionContextOrStorage x"
  by (induction cs arbitrary: st)
    (auto simp: analyzeCond_calls_def split: outcome.splits sum.splits option.splits Expr.splits)

lemma Analyze_calls_safe:
  "\<forall>x\<in>set (Analyze_calls h uis s). \<not> onExecutionContextOrStorage x"
  using analyzeConds_calls_safe [of h s "conditions uis" "(Map.empty, [])"]
  by (auto simp: Analyze_calls_def split: outcome.splits sum.splits if_splits)

subsection \<open>Routing between the global and the local plan\<close>

lemma Analyze_loop_ok:
  assumes "\<forall>c\<in>set (conditions uis). condPasses h s c"
  shows "analyzeConds h s (conditions uis) (Map.empty, []) =
     Returns (Inr (\<lambda>k. if filter (\<lambda>c. ruleOf s c = Some k \<and> GetLocation h k = LOCATION_SERIES) (conditions uis) = [] then None
            else Some (filter (\<lambda>c. ruleOf s c = Some k \<and> GetLocation h k = LOCATION_SERIES) (conditions uis)),
        concat (map (\<lambda>c. [RuleV (the (ruleOf s c)), ExprV c])
                 (filter (targets h s LOCATION_GLOBAL) (conditions uis)))))"
proof -
  from assms obtain lm gc where
    r: "analyzeConds h s (conditions uis) (Map.empty, []) = Returns (Inr (lm, gc))"
    using analyzeConds_passes [of h s "conditions uis" "(Map.empty, [])"] by auto
  have "gc = concat (map (\<lambda>c. [RuleV (the (ruleOf s c)), ExprV c])
                 (filter (targets h s LOCATION_GLOBAL) (conditions uis)))"
    using analyzeConds_global [OF r] by simp
  moreover have "lm = (\<lambda>k. if filter (\<lambda>c. ruleOf s c = Some k \<and> GetLocation h k = LOCATION_SERIES) (conditions uis) = [] then None
            else Some (filter (\<lambda>c. ruleOf s c = Some k \<and> GetLocation h k = LOCATION_SERIES) (conditions uis)))"
    using analyzeConds_local [OF r] by (auto simp: fun_eq_iff)
  ultimately show ?thesis using r by simp
qed

lemma length_global_conditions:
  "length (concat (map (\<lambda>c. [RuleV (f c), ExprV c]) cs)) = 2 * length cs"
  by (induction cs) auto

text \<open>
  Claim C1, amended. \<^verbatim>\<open>Analyze\<close> counts the predicates that target a GLOBAL rule, not the
  distinct rules: \<^verbatim>\<open>len(globalConditions)/2 > 1\<close>. For a plan whose conditions all pass
  the loop, whose projection (if any) resolves and in which at least one predicate targets
  a GLOBAL rule, \<^verbatim>\<open>Analyze\<close> fails with \<^verbatim>\<open>ErrMultipleGlobalIndexes\<close> if and only if more than
  one predicate targets a GLOBAL rule, whether or not they target the same rule.
\<close>

theorem Analyze_MultipleGlobalIndexes_iff:
  assumes "\<forall>c\<in>set (conditions uis). condPasses h s c"
    and "projectionFields uis = [] \<or> (\<exists>refs. CreateRef s (projectionFields uis) = Inr refs)"
    and "filter (targets h s LOCATION_GLOBAL) (conditions uis) \<noteq> []"
  shows "Analyze h uis s = Returns (Inl ErrMultipleGlobalIndexes) \<longleftrightarrow>
         1 < length (filter (targets h s LOCATION_GLOBAL) (conditions uis))"
proof -
  define gs where "gs = filter (targets h s LOCATION_GLOBAL) (conditions uis)"
  obtain refs where refs:
    "(if projectionFields uis \<noteq> [] then CreateRef s (projectionFields uis) else Inr []) = Inr refs"
    using assms(2) by (cases "projectionFields uis = []") auto
  obtain g gs' where gs: "gs = g # gs'"
    using assms(3) by (cases gs) (auto simp: gs_def)
  show ?thesis
    unfolding Analyze_def Analyze_loop_ok [OF assms(1)] gs_def [symmetric] 
    using refs gs
    by (cases gs') (simp_all add: length_global_conditions)
qed

theorem Analyze_MultipleGlobalIndexes_iff_witness:
  "Analyze example_heap (example_uis [example_pred ''trace_id'' [1], example_pred ''a'' [7],
      example_pred ''span_id'' [2]]) example_schema = Returns (Inl ErrMultipleGlobalIndexes)
   \<and> Analyze example_heap (example_uis [example_pred ''trace_id'' [1], example_pred ''a'' [7]])
      example_schema \<noteq> Returns (Inl ErrMultipleGlobalIndexes)"
proof -
  let ?u2 = "example_uis [example_pred ''trace_id'' [1], example_pred ''a'' [7], example_pred ''span_id'' [2]]"
  let ?u1 = "example_uis [example_pred ''trace_id'' [1], example_pred ''a'' [7]]"
  have p2: "\<forall>c\<in>set (conditions ?u2). condPasses example_heap example_schema c"
    by (simp add: example_defs condPasses_def)
  have p1: "\<forall>c\<in>set (conditions ?u1). condPasses example_heap example_schema c"
    by (simp add: example_defs condPasses_def)
  have r2: "projectionFields ?u2 = [] \<or> (\<exists>refs. CreateRef example_schema (projectionFields ?u2) = Inr refs)"
    by (simp add: example_defs)
  have r1: "projectionFields ?u1 = [] \<or> (\<exists>refs. CreateRef example_schema (projectionFields ?u1) = Inr refs)"
    by (simp add: example_defs)
  have g2: "filter (targets example_heap example_schema LOCATION_GLOBAL) (conditions ?u2) =
      [example_pred ''trace_id'' [1], example_pred ''span_id'' [2]]"
    by (simp add: example_defs targets_def)
  have g1: "filter (targets example_heap example_schema LOCATION_GLOBAL) (conditions ?u1) =
      [example_pred ''trace_id'' [1]]"
    by (simp add: example_defs targets_def)
  show ?thesis
    using Analyze_MultipleGlobalIndexes_iff [OF p2 r2] Analyze_MultipleGlobalIndexes_iff [OF p1 r1]
    unfolding g1 g2 by simp
qed

text \<open>
  The claim as it was stated fails: two predicates on the one GLOBAL rule at address 1
  touch a single global rule, and \<^verbatim>\<open>Analyze\<close> answers \<^verbatim>\<open>ErrMultipleGlobalIndexes\<close>.
\<close>

theorem Analyze_same_global_rule_twice:
  "map (ruleOf example_schema) [example_pred ''trace_id'' [1], example_pred ''trace_id'' [2]] = [Some 1, Some 1]
   \<and> GetLocation example_heap 1 = LOCATION_GLOBAL
   \<and> Analyze example_heap (example_uis [example_pred ''trace_id'' [1], example_pred ''trace_id'' [2]])
        example_schema = Returns (Inl ErrMultipleGlobalIndexes)"
  by (simp add: example_defs Analyze_def)

lemma Analyze_global_plan:
  assumes "\<forall>c\<in>set (conditions uis). condPasses h s c"
    and "(if projectionFields uis \<noteq> [] then CreateRef s (projectionFields uis) else Inr []) = Inr refs"
    and "filter (targets h s LOCATION_GLOBAL) (conditions uis) = [c]"
    and "ruleOf s c = Some x"
  shows "Analyze h uis s =
     Returns (Inr (GlobalIndexScan
       \<lparr>globalIndexScan.schema = s,
        globalIndexScan.metadata = unresolvedIndexScan.metadata uis,
        globalIndexRule = x,
        expr = c,
        globalIndexScan.projectionFieldRefs = refs\<rparr>))"
  unfolding Analyze_def Analyze_loop_ok [OF assms(1)] assms(2) assms(3)
  using assms(4) by simp

text \<open>
  Claim C7, amended. For a plan whose conditions all pass the loop and whose projection
  (if any) resolves to \<open>refs\<close>, and in which exactly one predicate \<open>c\<close> targets a GLOBAL
  rule \<open>x\<close>, \<^verbatim>\<open>Analyze\<close> returns the \<^verbatim>\<open>globalIndexScan\<close> bound to \<open>x\<close> and \<open>c\<close>, whatever
  the entity of the plan.
\<close>

theorem Analyze_single_global:
  assumes "\<forall>c\<in>set (conditions uis). condPasses h s c"
    and "(if projectionFields uis \<noteq> [] then CreateRef s (projectionFields uis) else Inr []) = Inr refs"
    and "filter (targets h s LOCATION_GLOBAL) (conditions uis) = [c]"
    and "ruleOf s c = Some x"
  shows "\<forall>e. Analyze h (uis\<lparr>unresolvedIndexScan.entity := e\<rparr>) s =
     Returns (Inr (GlobalIndexScan
       \<lparr>globalIndexScan.schema = s,
        globalIndexScan.metadata = unresolvedIndexScan.metadata uis,
        globalIndexRule = x,
        expr = c,
        globalIndexScan.projectionFieldRefs = refs\<rparr>))"
proof
  fix e
  show "Analyze h (uis\<lparr>unresolvedIndexScan.entity := e\<rparr>) s =
     Returns (Inr (GlobalIndexScan
       \<lparr>globalIndexScan.schema = s,
        globalIndexScan.metadata = unresolvedIndexScan.metadata uis,
        globalIndexRule = x,
        expr = c,
        globalIndexScan.projectionFieldRefs = refs\<rparr>))"
  proof -
    let ?u = "uis\<lparr>unresolvedIndexScan.entity := e\<rparr>"
    have a1: "\<forall>c\<in>set (conditions ?u). condPasses h s c"
      using assms(1) by simp
    have a2: "(if projectionFields ?u \<noteq> [] then CreateRef s (projectionFields ?u) else Inr []) =
        Inr refs"
      using assms(2) by (cases "projectionFields uis = []") simp_all
    have a3: "filter (targets h s LOCATION_GLOBAL) (conditions ?u) = [c]"
      using assms(3) by simp
    show ?thesis
      using Analyze_global_plan [OF a1 a2 a3 assms(4)] by simp
  qed
qed

theorem Analyze_single_global_witness:
  "Analyze example_heap (example_uis [example_pred ''a'' [7], example_pred ''trace_id'' [1]]
       \<lparr>unresolvedIndexScan.entity := [None, None, Some [9]]\<rparr>) example_schema =
     Returns (Inr (GlobalIndexScan
       \<lparr>globalIndexScan.schema = example_schema,
        globalIndexScan.metadata = Some \<lparr>group = ''default'', name = ''sw'', id = 0\<rparr>,
        globalIndexRule = 1,
        expr = example_pred ''trace_id'' [1],
        globalIndexScan.projectionFieldRefs = []\<rparr>))"
proof -
  let ?u = "example_uis [example_pred ''a'' [7], example_pred ''trace_id'' [1]]"
  have p: "\<forall>c\<in>set (conditions ?u). condPasses example_heap example_schema c"
    by (simp add: example_defs condPasses_def)
  have r: "(if projectionFields ?u \<noteq> [] then CreateRef example_schema (projectionFields ?u)
       else Inr []) = Inr []"
    by (simp add: example_defs)
  have g: "filter (targets example_heap example_schema LOCATION_GLOBAL) (conditions ?u) =
      [example_pred ''trace_id'' [1]]"
    by (simp add: example_defs targets_def)
  have x: "ruleOf example_schema (example_pred ''trace_id'' [1]) = Some 1"
    by (simp add: example_defs)
  have m: "unresolvedIndexScan.metadata ?u = Some \<lparr>group = ''default'', name = ''sw'', id = 0\<rparr>"
    by (simp add: example_uis_def)
  show ?thesis
    using Analyze_single_global [OF p r g x] unfolding m by blast
qed

text \<open>
  The claim as it was stated fails: a plan with exactly one predicate on a GLOBAL rule and
  a second predicate on a tag with no index gets no plan at all.
\<close>

theorem Analyze_single_global_other_error:
  "filter (targets example_heap example_schema LOCATION_GLOBAL)
      [example_pred ''trace_id'' [1], example_pred ''xyz'' [2]] = [example_pred ''trace_id'' [1]]
   \<and> Analyze example_heap (example_uis [example_pred ''trace_id'' [1], example_pred ''xyz'' [2]])
        example_schema = Returns (Inl (Wrap ErrIndexNotDefined ''xyz''))"
  by (simp add: example_defs Analyze_def targets_def)

subsection \<open>Tags with no index\<close>

lemma analyzeConds_stops:
  assumes "\<forall>x\<in>set pre. condPasses h s x"
    and "\<And>st'. analyzeCond h s c st' = Returns (Inl err)"
  shows "analyzeConds h s (pre @ c # post) st = Returns (Inl err)"
proof -
  obtain st1 where "analyzeConds h s pre st = Returns (Inr st1)"
    using assms(1) analyzeConds_passes [of h s pre st] by auto
  then show ?thesis
    by (simp add: analyzeConds_append assms(2))
qed

text \<open>
  Claim C3, amended. A plan that contains a binary predicate on a field reference whose
  tag \<^verbatim>\<open>s.IndexDefined\<close> reports as not defined never gets a plan from \<^verbatim>\<open>Analyze\<close>; when
  no condition of the plan makes the loop panic, \<^verbatim>\<open>Analyze\<close> returns a nil plan and an
  error; and when every condition before the predicate passes the loop and the predicate
  itself resolves, the error is \<^verbatim>\<open>ErrIndexNotDefined\<close> wrapped with the compound name of that
  tag, and the calls \<^verbatim>\<open>Analyze\<close> has made are those of the loop for the conditions before,
  then \<^verbatim>\<open>Resolve\<close> on the predicate and \<^verbatim>\<open>IndexDefined\<close> on its tag, and nothing after.
  No call \<^verbatim>\<open>Analyze\<close> makes is on the execution context or the storage.
\<close>

theorem Analyze_IndexNotDefined:
  assumes "c \<in> set (conditions uis)"
    and "c = binaryExpr opr (FieldRefExpr f) rhs"
    and "\<not> fst (IndexDefined s (tag f))"
  shows "(\<forall>plan. Analyze h uis s \<noteq> Returns (Inr plan))
       \<and> ((\<forall>x\<in>set (conditions uis). \<not> condPanics h s x) \<longrightarrow>
            (\<exists>err. Analyze h uis s = Returns (Inl err)))
       \<and> (\<forall>pre post. conditions uis = pre @ c # post \<and> (\<forall>x\<in>set pre. condPasses h s x)
              \<and> Resolve s c = None \<longrightarrow>
            Analyze h uis s = Returns (Inl (Wrap ErrIndexNotDefined (GetCompoundName (tag f))))
            \<and> Analyze_calls h uis s =
                concat (map (analyzeCond_calls s) pre) @ [Call_Resolve c, Call_IndexDefined (tag f)])
       \<and> (\<forall>x\<in>set (Analyze_calls h uis s). \<not> onExecutionContextOrStorage x)"
proof -
  have "\<not> condPasses h s c"
    using analyzeCond_passes [of h s c "(Map.empty, [])"]
      analyzeCond_undefined [OF assms(2,3), of h "(Map.empty, [])"]
    by (auto split: option.splits)
  then have "\<not> (\<forall>x\<in>set (conditions uis). condPasses h s x)"
    using assms(1) by blast
  then have noplan: "\<nexists>st'. analyzeConds h s (conditions uis) (Map.empty, []) = Returns (Inr st')"
    using analyzeConds_passes [of h s "conditions uis" "(Map.empty, [])"] by simp
  have 1: "\<forall>plan. Analyze h uis s \<noteq> Returns (Inr plan)"
    using noplan by (auto simp: Analyze_def split: outcome.splits sum.splits)
  have 2: "\<exists>err. Analyze h uis s = Returns (Inl err)"
    if np: "\<forall>x\<in>set (conditions uis). \<not> condPanics h s x"
  proof (cases "analyzeConds h s (conditions uis) (Map.empty, [])")
    case Panics
    then show ?thesis
      using analyzeConds_panics [of h s "conditions uis" "(Map.empty, [])"] np by blast
  next
    case (Returns r)
    then show ?thesis
      using noplan by (cases r) (simp_all add: Analyze_def)
  qed
  have 3: "Analyze h uis s = Returns (Inl (Wrap ErrIndexNotDefined (GetCompoundName (tag f))))
      \<and> Analyze_calls h uis s =
          concat (map (analyzeCond_calls s) pre) @ [Call_Resolve c, Call_IndexDefined (tag f)]"
    if a: "conditions uis = pre @ c # post \<and> (\<forall>x\<in>set pre. condPasses h s x) \<and> Resolve s c = None"
    for pre post
  proof -
    have step: "\<And>st'. analyzeCond h s c st' =
        Returns (Inl (Wrap ErrIndexNotDefined (GetCompoundName (tag f))))"
      using analyzeCond_undefined [OF assms(2,3), of h] a by simp
    then have loop: "analyzeConds h s (conditions uis) (Map.empty, []) =
        Returns (Inl (Wrap ErrIndexNotDefined (GetCompoundName (tag f))))"
      using a analyzeConds_stops [of pre h s c _ post "(Map.empty, [])"] by simp
    obtain st1 where st1: "analyzeConds h s pre (Map.empty, []) = Returns (Inr st1)"
      using a analyzeConds_passes [of h s pre "(Map.empty, [])"] by blast
    have cc: "analyzeCond_calls s c = [Call_Resolve c, Call_IndexDefined (tag f)]"
      using a assms(2) by (simp add: analyzeCond_calls_def)
    have "analyzeConds_calls h s (pre @ c # post) (Map.empty, []) =
        concat (map (analyzeCond_calls s) pre) @ analyzeConds_calls h s (c # post) st1"
      using analyzeConds_calls_passed [of pre h s "c # post" "(Map.empty, [])"] a st1 by simp
    also have "analyzeConds_calls h s (c # post) st1 = [Call_Resolve c, Call_IndexDefined (tag f)]"
      using step [of st1] cc by simp
    finally have calls: "analyzeConds_calls h s (conditions uis) (Map.empty, []) =
        concat (map (analyzeCond_calls s) pre) @ [Call_Resolve c, Call_IndexDefined (tag f)]"
      using a by simp
    show ?thesis
      using loop calls by (simp add: Analyze_def Analyze_calls_def)
  qed
  show ?thesis
    using 1 2 3 Analyze_calls_safe [of h uis s] by blast
qed

theorem Analyze_IndexNotDefined_witness:
  "Analyze example_heap (example_uis [example_pred ''a'' [1], example_pred ''xyz'' [2],
      example_pred ''trace_id'' [3]]) example_schema =
     Returns (Inl (Wrap ErrIndexNotDefined ''xyz''))
   \<and> Analyze_calls example_heap (example_uis [example_pred ''a'' [1], example_pred ''xyz'' [2],
      example_pred ''trace_id'' [3]]) example_schema =
     [Call_Resolve (example_pred ''a'' [1]), Call_IndexDefined (example_tag ''a''),
      Call_Resolve (example_pred ''xyz'' [2]), Call_IndexDefined (example_tag ''xyz'')]"
proof -
  let ?u = "example_uis [example_pred ''a'' [1], example_pred ''xyz'' [2], example_pred ''trace_id'' [3]]"
  let ?f = "\<lparr>tag = example_tag ''xyz'', spec = None\<rparr>"
  have 1: "example_pred ''xyz'' [2] \<in> set (conditions ?u)"
    by (simp add: example_uis_def)
  have 2: "example_pred ''xyz'' [2] = binaryExpr EQ (FieldRefExpr ?f) (LiteralExpr [2])"
    by (simp add: example_pred_def)
  have 3: "\<not> fst (IndexDefined example_schema (tag ?f))"
    by (simp add: example_defs)
  have 4: "conditions ?u = [example_pred ''a'' [1]] @ example_pred ''xyz'' [2] # [example_pred ''trace_id'' [3]]
      \<and> (\<forall>x\<in>set [example_pred ''a'' [1]]. condPasses example_heap example_schema x)
      \<and> Resolve example_schema (example_pred ''xyz'' [2]) = None"
    by (simp add: example_defs condPasses_def)
  have n: "GetCompoundName (tag ?f) = ''xyz''" "tag ?f = example_tag ''xyz''"
    by (simp_all add: example_tag_def)
  have c: "concat (map (analyzeCond_calls example_schema) [example_pred ''a'' [1]]) =
      [Call_Resolve (example_pred ''a'' [1]), Call_IndexDefined (example_tag ''a'')]"
    by (simp add: analyzeCond_calls_def example_pred_def example_schema_def)
  from Analyze_IndexNotDefined [OF 1 2 3, of example_heap] 4
  have "Analyze example_heap ?u example_schema =
        Returns (Inl (Wrap ErrIndexNotDefined (GetCompoundName (tag ?f))))
      \<and> Analyze_calls example_heap ?u example_schema =
        concat (map (analyzeCond_calls example_schema) [example_pred ''a'' [1]]) @
          [Call_Resolve (example_pred ''xyz'' [2]), Call_IndexDefined (tag ?f)]"
    by blast
  then show ?thesis
    unfolding n c by (simp add: example_tag_def)
qed

text \<open>
  The claim as it was stated fails: of two predicates on tags with no index the error
  names the first, so the plan contains a predicate on the undefined tag \<open>abc\<close> and the
  error does not name \<open>abc\<close>.
\<close>

theorem Analyze_IndexNotDefined_first_only:
  "example_pred ''abc'' [2] \<in> set (conditions (example_uis [example_pred ''xyz'' [1], example_pred ''abc'' [2]]))
   \<and> \<not> fst (IndexDefined example_schema (example_tag ''abc''))
   \<and> Analyze example_heap (example_uis [example_pred ''xyz'' [1], example_pred ''abc'' [2]])
        example_schema = Returns (Inl (Wrap ErrIndexNotDefined ''xyz''))
   \<and> Analyze example_heap (example_uis [example_pred ''xyz'' [1], example_pred ''abc'' [2]])
        example_schema \<noteq> Returns (Inl (Wrap ErrIndexNotDefined (GetCompoundName (example_tag ''abc''))))"
  by (simp add: example_defs Analyze_def)

subsection \<open>The condition map of the local plan\<close>

text \<open>
  Claim C2. After an \<^verbatim>\<open>Analyze\<close> that yields a \<^verbatim>\<open>localIndexScan\<close>, every key of its
  condition map is a rule located at SERIES, and the map is the grouping of the conditions
  by rule: under a SERIES rule \<open>k\<close> stand exactly the binary predicates whose tag
  \<^verbatim>\<open>s.IndexDefined\<close> puts under \<open>k\<close>, in the order of \<^verbatim>\<open>uis.conditions\<close>, and a rule with no
  such predicate is no key.
\<close>

theorem Analyze_conditionMap:
  assumes "Analyze h uis s = Returns (Inr (LocalIndexScan i))"
  shows "(\<forall>k\<in>dom (conditionMap i). GetLocation h k = LOCATION_SERIES)
       \<and> (\<forall>k. conditionMap i k =
            (if GetLocation h k = LOCATION_SERIES
                \<and> filter (\<lambda>c. ruleOf s c = Some k) (conditions uis) \<noteq> []
             then Some (filter (\<lambda>c. ruleOf s c = Some k) (conditions uis)) else None))"
proof -
  from assms obtain lm gc where
    r: "analyzeConds h s (conditions uis) (Map.empty, []) = Returns (Inr (lm, gc))"
    by (auto simp: Analyze_def split: outcome.splits sum.splits)
  have i: "conditionMap i = lm"
    using assms r by (auto simp: Analyze_def split: sum.splits if_splits list.splits iface.splits)
  have lm: "lm k = (if GetLocation h k = LOCATION_SERIES
                \<and> filter (\<lambda>c. ruleOf s c = Some k) (conditions uis) \<noteq> []
             then Some (filter (\<lambda>c. ruleOf s c = Some k) (conditions uis)) else None)" for k
    using analyzeConds_local [OF r, of k] by (cases "GetLocation h k = LOCATION_SERIES") simp_all
  show ?thesis
    unfolding i using lm by (auto simp: dom_def split: if_splits)
qed

theorem Analyze_conditionMap_witness:
  "\<exists>i. Analyze example_heap (example_uis [example_pred ''a'' [1], example_pred ''duration'' [2],
        example_pred ''b'' [3]]) example_schema = Returns (Inr (LocalIndexScan i))
     \<and> dom (conditionMap i) = {3, 4}
     \<and> conditionMap i 3 = Some [example_pred ''a'' [1], example_pred ''b'' [3]]
     \<and> conditionMap i 4 = Some [example_pred ''duration'' [2]]
     \<and> GetLocation example_heap 3 = LOCATION_SERIES
     \<and> GetLocation example_heap 4 = LOCATION_SERIES"
proof -
  let ?u = "example_uis [example_pred ''a'' [1], example_pred ''duration'' [2], example_pred ''b'' [3]]"
  have "\<exists>i. Analyze example_heap ?u example_schema = Returns (Inr (LocalIndexScan i))"
    by (simp add: example_defs Analyze_def)
  then obtain i where a: "Analyze example_heap ?u example_schema = Returns (Inr (LocalIndexScan i))"
    by blast
  note t = Analyze_conditionMap [OF a]
  have m: "conditionMap i k =
            (if GetLocation example_heap k = LOCATION_SERIES
                \<and> filter (\<lambda>c. ruleOf example_schema c = Some k) (conditions ?u) \<noteq> []
             then Some (filter (\<lambda>c. ruleOf example_schema c = Some k) (conditions ?u)) else None)" for k
    using t by blast
  have 3: "conditionMap i 3 = Some [example_pred ''a'' [1], example_pred ''b'' [3]]"
    unfolding m by (simp add: example_defs)
  have 4: "conditionMap i 4 = Some [example_pred ''duration'' [2]]"
    unfolding m by (simp add: example_defs)
  have d: "dom (conditionMap i) = {3, 4}"
  proof -
    have "conditionMap i k \<noteq> None \<longleftrightarrow> k = 3 \<or> k = 4" for k
      unfolding m by (simp add: example_defs)
    then show ?thesis by (auto simp: dom_def)
  qed
  show ?thesis
    using a 3 4 d by (auto simp: example_heap_def GetLocation_def)
qed

subsection \<open>Rules located neither at SERIES nor at GLOBAL\<close>

lemma analyzeConds_without:
  assumes "\<And>st. analyzeCond h s c st = Returns (Inr st)"
  shows "analyzeConds h s (pre @ c # post) st0 = analyzeConds h s (pre @ post) st0"
  by (simp add: analyzeConds_append assms split: outcome.splits sum.splits)

lemma Analyze_local_conditionMap:
  assumes "Analyze h uis s = Returns (Inr (LocalIndexScan i))"
  shows "conditionMap i k =
     (if filter (\<lambda>c. ruleOf s c = Some k \<and> GetLocation h k = LOCATION_SERIES) (conditions uis) = []
      then None
      else Some (filter (\<lambda>c. ruleOf s c = Some k \<and> GetLocation h k = LOCATION_SERIES)
        (conditions uis)))"
proof -
  from assms obtain lm gc where
    r: "analyzeConds h s (conditions uis) (Map.empty, []) = Returns (Inr (lm, gc))"
    by (auto simp: Analyze_def split: outcome.splits sum.splits)
  have i: "conditionMap i = lm"
    using assms r by (auto simp: Analyze_def split: sum.splits if_splits list.splits iface.splits)
  show ?thesis
    unfolding i using analyzeConds_local [OF r, of k] by simp
qed

lemma Analyze_global_expr:
  assumes "Analyze h uis s = Returns (Inr (GlobalIndexScan g))"
  shows "targets h s LOCATION_GLOBAL (expr g)"
proof -
  from assms obtain lm gc where
    r: "analyzeConds h s (conditions uis) (Map.empty, []) = Returns (Inr (lm, gc))"
    by (auto simp: Analyze_def split: outcome.splits sum.splits)
  have gc: "gc = concat (map (\<lambda>c. [RuleV (the (ruleOf s c)), ExprV c])
                 (filter (targets h s LOCATION_GLOBAL) (conditions uis)))"
    using analyzeConds_global [OF r] by simp
  from assms r obtain rule rest where g: "gc = RuleV rule # ExprV (expr g) # rest"
    by (auto simp: Analyze_def split: sum.splits if_splits list.splits iface.splits)
  then obtain rest' where "filter (targets h s LOCATION_GLOBAL) (conditions uis) = expr g # rest'"
    unfolding gc by (cases "filter (targets h s LOCATION_GLOBAL) (conditions uis)") auto
  then have "expr g \<in> set (filter (targets h s LOCATION_GLOBAL) (conditions uis))"
    by simp
  then show ?thesis by simp
qed

text \<open>
  Claim C10, amended. A binary predicate on a field reference that resolves without
  error, whose tag is defined and whose rule is located neither at SERIES nor at GLOBAL,
  raises no error in the loop and is recorded nowhere: the loop body returns the state it
  was given (the condition map and the global conditions both unchanged); \<^verbatim>\<open>Analyze\<close> of a
  plan with the predicate among its conditions returns what \<^verbatim>\<open>Analyze\<close> returns for the
  plan without it, so it succeeds exactly when \<^verbatim>\<open>Analyze\<close> of the plan without it
  succeeds; and in a plan \<^verbatim>\<open>Analyze\<close> returns the predicate stands under no key of the
  condition map and is not the expression of the global scan.
\<close>

theorem Analyze_drops_unlocated:
  assumes "c = binaryExpr opr (FieldRefExpr f) rhs"
    and "Resolve s c = None"
    and "IndexDefined s (tag f) = (True, x)"
    and "GetLocation h x \<noteq> LOCATION_SERIES"
    and "GetLocation h x \<noteq> LOCATION_GLOBAL"
  shows "analyzeCond h s c st = Returns (Inr st)
       \<and> Analyze h (uis\<lparr>conditions := pre @ c # post\<rparr>) s =
         Analyze h (uis\<lparr>conditions := pre @ post\<rparr>) s
       \<and> (\<forall>i. Analyze h (uis\<lparr>conditions := pre @ c # post\<rparr>) s = Returns (Inr (LocalIndexScan i))
            \<longrightarrow> (\<forall>k cs. conditionMap i k = Some cs \<longrightarrow> c \<notin> set cs))
       \<and> (\<forall>g. Analyze h (uis\<lparr>conditions := pre @ c # post\<rparr>) s = Returns (Inr (GlobalIndexScan g))
            \<longrightarrow> expr g \<noteq> c)"
proof -
  have step: "analyzeCond h s c st' = Returns (Inr st')" for st'
    by (rule analyzeCond_dropped [OF assms])
  have "analyzeConds h s (pre @ c # post) (Map.empty, []) =
      analyzeConds h s (pre @ post) (Map.empty, [])"
    by (rule analyzeConds_without) (rule step)
  then have eq: "Analyze h (uis\<lparr>conditions := pre @ c # post\<rparr>) s =
         Analyze h (uis\<lparr>conditions := pre @ post\<rparr>) s"
    by (auto simp: Analyze_def split: outcome.splits sum.splits prod.splits list.splits iface.splits)
  have rule: "ruleOf s c = Some x"
    using assms(1,3) by simp
  have loc: "c \<notin> set cs"
    if a: "Analyze h (uis\<lparr>conditions := pre @ c # post\<rparr>) s = Returns (Inr (LocalIndexScan i))"
      and k: "conditionMap i k = Some cs" for i k cs
  proof
    assume "c \<in> set cs"
    then have "ruleOf s c = Some k \<and> GetLocation h k = LOCATION_SERIES"
      using Analyze_local_conditionMap [OF a, of k] k by (auto split: if_splits)
    then show False
      using rule assms(4) by simp
  qed
  have glob: "expr g \<noteq> c"
    if a: "Analyze h (uis\<lparr>conditions := pre @ c # post\<rparr>) s = Returns (Inr (GlobalIndexScan g))"
    for g
  proof
    assume "expr g = c"
    then have "targets h s LOCATION_GLOBAL c"
      using Analyze_global_expr [OF a] by simp
    then show False
      using rule assms(5) by (simp add: targets_def)
  qed
  show ?thesis
    using step eq loc glob by blast
qed

theorem Analyze_drops_unlocated_witness:
  "analyzeCond example_heap example_schema (example_pred ''legacy'' [5]) (Map.empty, []) =
     Returns (Inr (Map.empty, []))
   \<and> Analyze example_heap (example_uis [example_pred ''legacy'' [5]]) example_schema =
     Returns (Inr (LocalIndexScan
       \<lparr>orderBy = \<lparr>index = None, sort = SORT_UNSPECIFIED\<rparr>,
        timeRange = \<lparr>Start = 100, End = 200\<rparr>,
        localIndexScan.schema = example_schema,
        localIndexScan.metadata = Some \<lparr>group = ''default'', name = ''sw'', id = 0\<rparr>,
        conditionMap = Map.empty,
        localIndexScan.projectionFieldRefs = [],
        localIndexScan.entity = [Some [1], None]\<rparr>))"
proof -
  let ?f = "\<lparr>tag = example_tag ''legacy'', spec = None\<rparr>"
  have 1: "example_pred ''legacy'' [5] = binaryExpr EQ (FieldRefExpr ?f) (LiteralExpr [5])"
    by (simp add: example_pred_def)
  have 2: "Resolve example_schema (example_pred ''legacy'' [5]) = None"
    by (simp add: example_schema_def)
  have 3: "IndexDefined example_schema (tag ?f) = (True, 5)"
    by (simp add: example_defs)
  have 4: "GetLocation example_heap 5 \<noteq> LOCATION_SERIES"
    by (simp add: example_defs)
  have 5: "GetLocation example_heap 5 \<noteq> LOCATION_GLOBAL"
    by (simp add: example_defs)
  have u: "example_uis [example_pred ''legacy'' [5]] =
      (example_uis [])\<lparr>conditions := [] @ example_pred ''legacy'' [5] # []\<rparr>"
    by (simp add: example_uis_def)
  have e: "Analyze example_heap ((example_uis [])\<lparr>conditions := [] @ []\<rparr>) example_schema =
     Returns (Inr (LocalIndexScan
       \<lparr>orderBy = \<lparr>index = None, sort = SORT_UNSPECIFIED\<rparr>,
        timeRange = \<lparr>Start = 100, End = 200\<rparr>,
        localIndexScan.schema = example_schema,
        localIndexScan.metadata = Some \<lparr>group = ''default'', name = ''sw'', id = 0\<rparr>,
        conditionMap = Map.empty,
        localIndexScan.projectionFieldRefs = [],
        localIndexScan.entity = [Some [1], None]\<rparr>))"
    by (simp add: Analyze_def example_uis_def example_schema_def NewTimeRange_def)
  show ?thesis
    using Analyze_drops_unlocated [OF 1 2 3 4 5,
        where st = "(Map.empty, [])" and uis = "example_uis []" and pre = "[]" and post = "[]"]
    unfolding u e by simp
qed

text \<open>
  The claim as it was stated fails: a plan with such a predicate and a second predicate
  on a tag with no index does not succeed.
\<close>

theorem Analyze_unlocated_other_error:
  "ruleOf example_schema (example_pred ''legacy'' [5]) = Some 5
   \<and> GetLocation example_heap 5 = LOCATION_UNSPECIFIED
   \<and> Resolve example_schema (example_pred ''legacy'' [5]) = None
   \<and> Analyze example_heap (example_uis [example_pred ''legacy'' [5], example_pred ''xyz'' [2]])
        example_schema = Returns (Inl (Wrap ErrIndexNotDefined ''xyz''))"
  by (simp add: example_defs Analyze_def)

section \<open>Properties of Equal and String\<close>

text \<open>\<^verbatim>\<open>Equal\<close> on local index scans is reflexive, symmetric and transitive.\<close>

lemma localIndexScan_Equal_refl: "localIndexScan_Equal i (LocalIndexScan i)"
  by (simp add: localIndexScan_Equal_def)

lemma localIndexScan_Equal_sym:
  "localIndexScan_Equal i (LocalIndexScan j) \<Longrightarrow> localIndexScan_Equal j (LocalIndexScan i)"
  by (simp add: localIndexScan_Equal_def)

lemma localIndexScan_Equal_trans:
  "localIndexScan_Equal i (LocalIndexScan j) \<Longrightarrow> localIndexScan_Equal j (LocalIndexScan k) \<Longrightarrow>
     localIndexScan_Equal i (LocalIndexScan k)"
  by (simp add: localIndexScan_Equal_def)

text \<open>
  Within the range of an \<^verbatim>\<open>int64\<close> of nanoseconds \<^verbatim>\<open>UnixNano\<close> tells instants apart;
  outside it two instants \<open>2^64\<close> nanoseconds apart have the same \<^verbatim>\<open>UnixNano\<close> and
  different \<^verbatim>\<open>Unix\<close> seconds.
\<close>

lemma sint_UnixNano:
  assumes "- (2 ^ 63) \<le> t" and "t < 2 ^ 63"
  shows "sint (UnixNano t) = t"
proof -
  have "sint (UnixNano t) = signed_take_bit (LENGTH(64) - 1) t"
    unfolding UnixNano_def by (rule sint_sbintrunc')
  also have "LENGTH(64) - 1 = (63::nat)"
    by simp
  also have "signed_take_bit 63 t = t"
    using assms by (rule signed_take_bit_int_eq_self)
  finally show ?thesis .
qed

lemma UnixNano_inj:
  assumes "- (2 ^ 63) \<le> a" "a < 2 ^ 63" "- (2 ^ 63) \<le> b" "b < 2 ^ 63"
    and "UnixNano a = UnixNano b"
  shows "a = b"
proof -
  have "a = sint (UnixNano a)"
    by (rule sint_UnixNano [OF assms(1,2), symmetric])
  also have "\<dots> = sint (UnixNano b)"
    by (simp only: assms(5))
  also have "\<dots> = b"
    by (rule sint_UnixNano [OF assms(3,4)])
  finally show ?thesis .
qed

lemma UnixNano_wraps: "UnixNano 0 = UnixNano (2 ^ 64) \<and> Unix 0 \<noteq> Unix (2 ^ 64)"
proof
  show "UnixNano 0 = UnixNano (2 ^ 64)"
    unfolding UnixNano_def by (simp add: word_of_int_eq_iff take_bit_eq_mod)
  show "Unix 0 \<noteq> Unix (2 ^ 64)"
    by (simp add: Unix_def)
qed

text \<open>
  Two plans that \<^verbatim>\<open>Equal\<close> reports equal, with time ranges inside the \<^verbatim>\<open>int64\<close> range,
  have the same \<^verbatim>\<open>String\<close> when the two \<^verbatim>\<open>range\<close> loops visit the condition map in the
  same order.
\<close>

lemma localIndexScan_String_same_order:
  assumes "localIndexScan_Equal i (LocalIndexScan j)"
    and "- (2 ^ 63) \<le> Start (timeRange i)" "Start (timeRange i) < 2 ^ 63"
    and "- (2 ^ 63) \<le> End (timeRange i)" "End (timeRange i) < 2 ^ 63"
    and "- (2 ^ 63) \<le> Start (timeRange j)" "Start (timeRange j) < 2 ^ 63"
    and "- (2 ^ 63) \<le> End (timeRange j)" "End (timeRange j) < 2 ^ 63"
  shows "localIndexScan_String exprString formatExpr ks i =
         localIndexScan_String exprString formatExpr ks j"
proof -
  have eqs: "GetGroup (localIndexScan.metadata i) = GetGroup (localIndexScan.metadata j)"
    "GetName (localIndexScan.metadata i) = GetName (localIndexScan.metadata j)"
    "UnixNano (Start (timeRange i)) = UnixNano (Start (timeRange j))"
    "UnixNano (End (timeRange i)) = UnixNano (End (timeRange j))"
    "localIndexScan.projectionFieldRefs i = localIndexScan.projectionFieldRefs j"
    "conditionMap i = conditionMap j"
    using assms(1) by (simp_all add: localIndexScan_Equal_def)
  have s: "Start (timeRange i) = Start (timeRange j)"
    by (rule UnixNano_inj [OF assms(2,3,6,7) eqs(3)])
  have e: "End (timeRange i) = End (timeRange j)"
    by (rule UnixNano_inj [OF assms(4,5,8,9) eqs(4)])
  show ?thesis
    unfolding localIndexScan_String_def eqs(1,2,5,6) s e ..
qed

text \<open>
  Claim C8, at the failing input. The plan \<^verbatim>\<open>Analyze\<close> returns for two predicates on two
  SERIES rules has a condition map of two keys. Both orders of the two keys are orders in
  which a \<^verbatim>\<open>range\<close> loop may visit the map, the plan is \<^verbatim>\<open>Equal\<close> to itself, and \<^verbatim>\<open>String\<close>
  gives two different strings for the two orders: the output of \<^verbatim>\<open>String\<close> on one plan is
  not determined by the plan.
\<close>

theorem localIndexScan_String_order_dependent:
  "Analyze example_heap (example_uis [example_pred ''a'' [1], example_pred ''duration'' [2]])
      example_schema = Returns (Inr (LocalIndexScan example_plan))
   \<and> rangeOrder (conditionMap example_plan) [3, 4]
   \<and> rangeOrder (conditionMap example_plan) [4, 3]
   \<and> localIndexScan_Equal example_plan (LocalIndexScan example_plan)
   \<and> localIndexScan_String example_exprString example_formatExpr [3, 4] example_plan =
       ''IndexScan: startTime=0,endTime=0,Metadata{group=default,name=sw},conditions=(a) AND (duration); projection=None''
   \<and> localIndexScan_String example_exprString example_formatExpr [4, 3] example_plan =
       ''IndexScan: startTime=0,endTime=0,Metadata{group=default,name=sw},conditions=(duration) AND (a); projection=None''"
proof (intro conjI)
  show "Analyze example_heap (example_uis [example_pred ''a'' [1], example_pred ''duration'' [2]])
      example_schema = Returns (Inr (LocalIndexScan example_plan))"
    by (simp add: example_defs Analyze_def example_plan_def NewTimeRange_def)
  show "rangeOrder (conditionMap example_plan) [3, 4]"
    by (auto simp: rangeOrder_def example_plan_def)
  show "rangeOrder (conditionMap example_plan) [4, 3]"
    by (auto simp: rangeOrder_def example_plan_def)
  show "localIndexScan_Equal example_plan (LocalIndexScan example_plan)"
    by (rule localIndexScan_Equal_refl)
  show "localIndexScan_String example_exprString example_formatExpr [3, 4] example_plan =
       ''IndexScan: startTime=0,endTime=0,Metadata{group=default,name=sw},conditions=(a) AND (duration); projection=None''"
    by (simp add: localIndexScan_String_def example_plan_def example_exprString_def
        example_pred_def example_tag_def Unix_def formatInt_def GetGroup_def GetName_def)
  show "localIndexScan_String example_exprString example_formatExpr [4, 3] example_plan =
       ''IndexScan: startTime=0,endTime=0,Metadata{group=default,name=sw},conditions=(duration) AND (a); projection=None''"
    by (simp add: localIndexScan_String_def example_plan_def example_exprString_def
        example_pred_def example_tag_def Unix_def formatInt_def GetGroup_def GetName_def)
qed

end
